theory Spec2Isabelle
  imports Main
begin

section \<open>Data model of the view manager\<close>

text \<open>
  Node ids, subgroup ids and port numbers are unsigned integers of the source
  (\<^verbatim>\<open>uint32_t\<close>, \<^verbatim>\<open>uint16_t\<close>); the model never does arithmetic on them, so they are
  natural numbers. The change counters of the status table and the ranks of a view are
  C++ \<^verbatim>\<open>int\<close>; they are modelled as integers. Signed overflow is undefined in C++, so
  the model describes the runs in which no counter passes \<open>2^31 - 1\<close>.
\<close>

type_synonym node_id_t = nat
type_synonym subgroup_id_t = nat
type_synonym ip_addr_t = string
type_synonym ip_and_ports = "ip_addr_t \<times> nat \<times> nat \<times> nat \<times> nat"

datatype Mode = ORDERED | UNORDERED

record SubView =
  mode :: Mode
  members :: "node_id_t list"
  is_sender :: "int list"
  joined :: "node_id_t list"
  departed :: "node_id_t list"
  my_rank :: int

record View =
  vid :: int
  members :: "node_id_t list"
  member_ips_and_ports :: "ip_and_ports list"
  failed :: "bool list"
  num_failed :: int
  joined :: "node_id_t list"
  departed :: "node_id_t list"
  num_members :: int
  my_rank :: int
  next_unassigned_rank :: int
  is_adequately_provisioned :: bool
  i_know_i_am_leader :: bool
  subgroup_type_order :: "nat list"
  subgroup_shard_views :: "SubView list list"
  subgroup_ids_by_type_id :: "nat \<rightharpoonup> subgroup_id_t list"
  my_subgroups :: "subgroup_id_t \<rightharpoonup> nat"

text \<open>
  One row of the shared status table, with the columns the view manager reads and
  writes. The table is the list of its rows, one per member of the view, in rank order.
\<close>

record sst_row =
  vid :: int
  suspected :: "bool list"
  rip :: bool
  wedged :: bool
  changes :: "node_id_t list"
  joiner_ips :: "nat list"
  joiner_gms_ports :: "nat list"
  joiner_rpc_ports :: "nat list"
  joiner_sst_ports :: "nat list"
  joiner_rdmc_ports :: "nat list"
  num_changes :: int
  num_committed :: int
  num_acked :: int
  num_installed :: int
  num_received :: "int list"
  global_min :: "int list"
  global_min_ready :: "bool list"
  delivered_num :: "int list"

type_synonym DerechoSST = "sst_row list"

text \<open>
  A version is the pair of a view id and a sequence number (the source packs the two
  32-bit numbers into one 64-bit number). Of a message the model keeps what the delivery
  path reads: the sender, the index, the size and the size of the header. The multicast
  group holds the locally stable messages of each subgroup, by sequence number, in one
  map per transport; \<open>deliveries\<close> is the log of the calls of
  \<^verbatim>\<open>deliver_message\<close> and of the post-persist callback, in order.
\<close>

type_synonym version_t = "int \<times> int"

record Message =
  sender_id :: node_id_t
  msg_index :: int
  msg_size :: nat
  header_size :: nat

datatype delivery =
  Deliver_message Message subgroup_id_t version_t
  | Post_persist subgroup_id_t version_t

record MulticastGroup =
  locally_stable_rdmc_messages :: "subgroup_id_t \<Rightarrow> int \<rightharpoonup> Message"
  locally_stable_sst_messages :: "subgroup_id_t \<Rightarrow> int \<rightharpoonup> Message"
  deliveries :: "delivery list"

record RaggedTrim =
  subgroup_id :: subgroup_id_t
  shard_num :: nat
  vid :: int
  leader_id :: int
  max_received_by_sender :: "int list"

text \<open>
  The predicates the view manager registers with the status table: the six of
  \<^verbatim>\<open>register_predicates\<close>, and the one-time predicate of \<^verbatim>\<open>terminate_epoch\<close> that
  waits for the leader's \<^verbatim>\<open>num_committed\<close> to pass a given value. A handle of the source
  is valid exactly while its predicate is in the list.
\<close>

datatype gms_predicate =
  Suspected_changed
  | Start_join
  | Reject_join
  | Change_commit_ready
  | Leader_proposed_change
  | Leader_committed_changes
  | Leader_committed_beyond int

text \<open>
  The part of a \<^verbatim>\<open>ViewManager\<close> that the modelled functions touch: the current view,
  the local copy of the status table, the suspicions already handled, the rows the table
  has been told to freeze, whether the multicast group has been wedged, the multicast
  group, the ragged trims saved to disk, by subgroup and shard, the next view once
  \<^verbatim>\<open>terminate_epoch\<close> has made one, and the registered predicates. The local
  row of the table is the row of \<^verbatim>\<open>curr_view->my_rank\<close>: the table is built for the
  node \<^verbatim>\<open>curr_view->members[curr_view->my_rank]\<close>.
\<close>

record ViewManager =
  curr_view :: View
  gmsSST :: DerechoSST
  last_suspected :: "bool list"
  frozen :: "nat list"
  multicast_wedged :: bool
  multicast_group :: MulticastGroup
  any_persistent_objects :: bool
  ragged_trim_files :: "subgroup_id_t \<times> nat \<rightharpoonup> RaggedTrim"
  next_view :: "View option"
  predicates :: "gms_predicate list"

text \<open>
  The exceptions the modelled functions throw, named after their messages;
  \<open>Out_of_range\<close> is the \<^verbatim>\<open>std::out_of_range\<close> of a failed \<^verbatim>\<open>at\<close>.
  \<open>Out_of_bounds\<close> is not thrown by the source: it marks a read or write of a vector
  outside its range, whose behaviour C++ leaves undefined.
\<close>

datatype derecho_exception =
  Partitioning_event
  | Ran_out_of_room
  | Too_many_changes
  | Reported_failed
  | Out_of_range
  | Out_of_bounds

datatype JoinResponseCode = OK | ID_IN_USE | LEADER_REDIRECT | TOTAL_RESTART

subsection \<open>Helpers of the view\<close>

text \<open>
  Modelled from the spec: \<^verbatim>\<open>View::rank_of\<close>, \<^verbatim>\<open>View::rank_of_leader\<close> and
  \<^verbatim>\<open>View::i_am_leader\<close> belong to the view class, whose source file is not part of
  the sources at hand. \<open>rank_of\<close> is the index of a node id in the member list, or
  \<open>-1\<close> (the callers test for \<open>-1\<close>); the leader is the lowest-ranked member that
  is not marked failed, \<open>-1\<close> when there is none.
\<close>

fun rank_of_list :: "node_id_t list \<Rightarrow> node_id_t \<Rightarrow> int" where
  "rank_of_list [] who = - 1"
| "rank_of_list (m # ms) who =
     (if m = who then 0
      else (let r = rank_of_list ms who in if r = - 1 then - 1 else r + 1))"

definition rank_of :: "View \<Rightarrow> node_id_t \<Rightarrow> int" where
  "rank_of v who = rank_of_list (View.members v) who"

fun first_not_failed :: "bool list \<Rightarrow> int" where
  "first_not_failed [] = - 1"
| "first_not_failed (f # fs) =
     (if \<not> f then 0
      else (let r = first_not_failed fs in if r = - 1 then - 1 else r + 1))"

definition rank_of_leader :: "View \<Rightarrow> int" where
  "rank_of_leader v = first_not_failed (failed v)"

definition i_am_leader :: "View \<Rightarrow> bool" where
  "i_am_leader v \<longleftrightarrow> rank_of_leader v = View.my_rank v"

definition local_index :: "ViewManager \<Rightarrow> nat" where
  "local_index vm = nat (View.my_rank (curr_view vm))"

text \<open>
  Modelled from the spec: \<^verbatim>\<open>View::wedge\<close> sets the wedged flag of the local row and
  asks the multicast group to halt.
\<close>

definition wedge :: "ViewManager \<Rightarrow> ViewManager" where
  "wedge vm =
     vm\<lparr>multicast_wedged := True,
        gmsSST := (gmsSST vm)[local_index vm := (gmsSST vm ! local_index vm)\<lparr>wedged := True\<rparr>]\<rparr>"

subsection \<open>Commit of a proposed change\<close>

text \<open>
  \<^verbatim>\<open>ViewManager::min_acked\<close>: the loop starts from the local row's \<^verbatim>\<open>num_acked\<close> and
  runs over the indices of the \<^verbatim>\<open>failed\<close> vector.
\<close>

definition min_acked :: "DerechoSST \<Rightarrow> nat \<Rightarrow> bool list \<Rightarrow> int" where
  "min_acked sst myRank fl =
     fold (\<lambda>n m. if \<not> fl ! n \<and> num_acked (sst ! n) < m then num_acked (sst ! n) else m)
       [0..<length fl] (num_acked (sst ! myRank))"

text \<open>The predicate \<^verbatim>\<open>change_commit_ready\<close> registered by \<^verbatim>\<open>register_predicates\<close>.\<close>

definition change_commit_ready :: "ViewManager \<Rightarrow> bool" where
  "change_commit_ready vm \<longleftrightarrow>
     i_am_leader (curr_view vm)
     \<and> min_acked (gmsSST vm) (local_index vm) (failed (curr_view vm))
         > num_committed (gmsSST vm ! local_index vm)"

definition leader_commit_change :: "ViewManager \<Rightarrow> ViewManager" where
  "leader_commit_change vm =
     vm\<lparr>gmsSST := (gmsSST vm)[local_index vm :=
        (gmsSST vm ! local_index vm)
          \<lparr>num_committed := min_acked (gmsSST vm) (local_index vm) (failed (curr_view vm))\<rparr>]\<rparr>"


subsection \<open>Suspicions and the partition check\<close>










subsection \<open>Joins\<close>

text \<open>
  What \<^verbatim>\<open>receive_join\<close> reads from the client socket: the packed address of the
  peer, the id it announces and its four ports.
\<close>

record join_request =
  joiner_ip_packed :: nat
  joining_client_id :: node_id_t
  joiner_gms_port :: nat
  joiner_rpc_port :: nat
  joiner_sst_port :: nat
  joiner_rdmc_port :: nat

text \<open>
  \<^verbatim>\<open>ViewManager::receive_join\<close> returns the new state, the response written to the
  client and the boolean the source returns, or the exception it throws. The exception is
  thrown before anything is written, so the state is then the one it was called in.
\<close>

definition receive_join ::
  "join_request \<Rightarrow> ViewManager
     \<Rightarrow> derecho_exception + (ViewManager \<times> (JoinResponseCode \<times> node_id_t) \<times> bool)" where
  "receive_join client_socket vm =
     (let Vc = curr_view vm;
          my = local_index vm;
          row = gmsSST vm ! my
      in if num_changes row - num_committed row = int (length (changes row))
         then Inl Too_many_changes
         else if rank_of Vc (joining_client_id client_socket) \<noteq> - 1
         then Inr (vm, (ID_IN_USE, View.members Vc ! my), False)
         else
           (let next_change = num_changes row - num_installed row
            in if next_change < 0 \<or> int (length (changes row)) \<le> next_change
               then Inl Out_of_bounds
               else
                 (let i = nat next_change;
                      row' = row\<lparr>changes := (changes row)[i := joining_client_id client_socket],
                                 joiner_ips := (joiner_ips row)[i := joiner_ip_packed client_socket],
                                 joiner_gms_ports := (joiner_gms_ports row)[i := joiner_gms_port client_socket],
                                 joiner_rpc_ports := (joiner_rpc_ports row)[i := joiner_rpc_port client_socket],
                                 joiner_sst_ports := (joiner_sst_ports row)[i := joiner_sst_port client_socket],
                                 joiner_rdmc_ports := (joiner_rdmc_ports row)[i := joiner_rdmc_port client_socket],
                                 num_changes := num_changes row + 1\<rparr>
                  in Inr (wedge (vm\<lparr>gmsSST := (gmsSST vm)[my := row']\<rparr>),
                          (OK, View.members Vc ! my), True))))"


subsection \<open>The next view\<close>

text \<open>
  Modelled from the spec: the constructor of \<^verbatim>\<open>View\<close> is part of the view class, whose
  source file is not part of the sources at hand. It stores its arguments, takes
  \<open>num_members\<close> from the member list and \<open>num_failed\<close> from the failed flags, and
  leaves the subgroup tables empty; a fresh view counts as adequately provisioned until
  \<open>make_subgroup_maps\<close> says otherwise (\<^verbatim>\<open>await_first_view\<close> relies on it).
\<close>

definition make_View ::
  "int \<Rightarrow> node_id_t list \<Rightarrow> ip_and_ports list \<Rightarrow> bool list \<Rightarrow> node_id_t list
     \<Rightarrow> node_id_t list \<Rightarrow> int \<Rightarrow> int \<Rightarrow> nat list \<Rightarrow> View" where
  "make_View v ms ips fl jd dp rank nur order =
     \<lparr>View.vid = v, View.members = ms, member_ips_and_ports = ips, failed = fl,
      num_failed = int (length (filter id fl)), View.joined = jd, View.departed = dp,
      num_members = int (length ms), View.my_rank = rank, next_unassigned_rank = nur,
      is_adequately_provisioned = True, i_know_i_am_leader = False,
      subgroup_type_order = order, subgroup_shard_views = [],
      subgroup_ids_by_type_id = Map.empty, my_subgroups = Map.empty\<rparr>"

text \<open>
  A \<^verbatim>\<open>std::set<int>\<close> is kept as the ascending list of its elements; \<open>set_emplace\<close>
  is its \<^verbatim>\<open>emplace\<close>.
\<close>

definition set_emplace :: "int \<Rightarrow> int list \<Rightarrow> int list" where
  "set_emplace x s = (if x \<in> set s then s else insort x s)"

text \<open>
  The loops of \<^verbatim>\<open>ViewManager::make_next_view\<close>, in the order of the source. The first
  splits the committed changes of the local row into the ranks that leave and the indices
  of the changes that are joins.
\<close>

definition filter_changes :: "View \<Rightarrow> node_id_t list \<Rightarrow> nat \<Rightarrow> int list \<times> nat list" where
  "filter_changes Vc chs committed_count =
     fold (\<lambda>change_index (leave_ranks, join_indexes).
             let change_id = chs ! change_index;
                 change_rank = rank_of Vc change_id
             in if change_rank \<noteq> - 1
                then (set_emplace change_rank leave_ranks, join_indexes)
                else (leave_ranks, join_indexes @ [change_index]))
       [0..<committed_count] ([], [])"

text \<open>The second writes the joiners behind the members that stay.\<close>

definition place_joiners ::
  "(nat \<Rightarrow> ip_addr_t) \<Rightarrow> sst_row \<Rightarrow> nat \<Rightarrow> nat list \<Rightarrow> nat
     \<Rightarrow> node_id_t list \<times> node_id_t list \<times> ip_and_ports list" where
  "place_joiners inet_ntoa row first_joiner_rank join_indexes next_num_members =
     fold (\<lambda>i (jd, ms, ips).
             let join_index = join_indexes ! i;
                 joiner_id = changes row ! join_index;
                 new_member_rank = first_joiner_rank + i
             in (jd @ [joiner_id], ms[new_member_rank := joiner_id],
                 ips[new_member_rank :=
                       (inet_ntoa (joiner_ips row ! join_index), joiner_gms_ports row ! join_index,
                        joiner_rpc_ports row ! join_index, joiner_sst_ports row ! join_index,
                        joiner_rdmc_ports row ! join_index)]))
       [0..<length join_indexes]
       ([], replicate next_num_members 0, replicate next_num_members ([], 0, 0, 0, 0))"

text \<open>The third lists the departed members and lowers \<open>next_unassigned_rank\<close>.\<close>

definition collect_departed :: "View \<Rightarrow> int list \<Rightarrow> node_id_t list \<times> int" where
  "collect_departed Vc leave_ranks =
     fold (\<lambda>leaver_rank (dp, nur).
             (dp @ [View.members Vc ! nat leaver_rank],
              if leaver_rank \<le> next_unassigned_rank Vc then nur - 1 else nur))
       leave_ranks ([], next_unassigned_rank Vc)"

text \<open>The fourth copies the members that stay to the front, in their old order.\<close>

definition copy_survivors ::
  "View \<Rightarrow> int list \<Rightarrow> node_id_t list \<Rightarrow> ip_and_ports list \<Rightarrow> bool list
     \<Rightarrow> node_id_t list \<times> ip_and_ports list \<times> bool list \<times> nat" where
  "copy_survivors Vc leave_ranks ms0 ips0 fl0 =
     fold (\<lambda>old_rank (ms, ips, fl, new_rank).
             if int old_rank \<notin> set leave_ranks
             then (ms[new_rank := View.members Vc ! old_rank],
                   ips[new_rank := member_ips_and_ports Vc ! old_rank],
                   fl[new_rank := failed Vc ! old_rank],
                   new_rank + 1)
             else (ms, ips, fl, new_rank))
       [0..<nat (num_members Vc)] (ms0, ips0, fl0, 0)"

text \<open>
  \<^verbatim>\<open>inet_ntoa\<close>, which prints a packed address, is a parameter. The search for the
  local node's new rank is the first-index search of \<open>rank_of_list\<close>.
\<close>

definition make_next_view ::
  "(nat \<Rightarrow> ip_addr_t) \<Rightarrow> View \<Rightarrow> DerechoSST \<Rightarrow> derecho_exception + View" where
  "make_next_view inet_ntoa Vc sst =
     (let myRank = nat (View.my_rank Vc);
          leader = nat (rank_of_leader Vc);
          row = sst ! myRank;
          committed_count = num_committed (sst ! leader) - num_installed (sst ! leader);
          (leave_ranks, join_indexes) = filter_changes Vc (changes row) (nat committed_count);
          next_num_members =
            nat (num_members Vc - int (length leave_ranks) + int (length join_indexes));
          first_joiner_rank = nat (num_members Vc - int (length leave_ranks));
          (jd, ms1, ips1) = place_joiners inet_ntoa row first_joiner_rank join_indexes next_num_members;
          (dp, nur) = collect_departed Vc leave_ranks;
          (ms, ips, fl, new_rank) =
            copy_survivors Vc leave_ranks ms1 ips1 (replicate next_num_members False);
          myID = View.members Vc ! myRank;
          my_new_rank = rank_of_list ms myID
      in if my_new_rank = - 1 then Inl Reported_failed
         else Inr ((make_View (View.vid Vc + 1) ms ips fl jd dp my_new_rank nur
                      (subgroup_type_order Vc))
                   \<lparr>i_know_i_am_leader := i_know_i_am_leader Vc\<rparr>))"


subsection \<open>Ragged-edge cleanup\<close>


definition to_int32 :: "int \<Rightarrow> int" where
  "to_int32 x = (let u = x mod 2 ^ 32 in if u < 2 ^ 31 then u else u - 2 ^ 32)"






text \<open>
  \<^verbatim>\<open>ViewManager::deliver_in_order\<close> reads the trim from the row of the shard leader,
  logs it to disk when there are persistent objects, and delivers up to it.
\<close>

definition max_received_indices_of :: "DerechoSST \<Rightarrow> nat \<Rightarrow> nat \<Rightarrow> nat \<Rightarrow> int list" where
  "max_received_indices_of sst shard_leader_rank num_received_offset num_shard_senders =
     map (\<lambda>sender_rank. global_min (sst ! shard_leader_rank) ! (num_received_offset + sender_rank))
       [0..<num_shard_senders]"


text \<open>
  \<^verbatim>\<open>gmssst::set\<close> on two ranges of \<^verbatim>\<open>global_min\<close>: the entries
  \<open>offset, \<dots>, offset + n - 1\<close> of row \<open>src\<close> are copied, one by one, to row \<open>dst\<close>.
\<close>

definition copy_global_min :: "nat \<Rightarrow> nat \<Rightarrow> nat \<Rightarrow> nat \<Rightarrow> DerechoSST \<Rightarrow> DerechoSST" where
  "copy_global_min dst src offset n sst =
     fold (\<lambda>i T. T[dst := (T ! dst)\<lparr>global_min :=
                     (global_min (T ! dst))[offset + i := global_min (T ! src) ! (offset + i)]\<rparr>])
       [0..<n] sst"

text \<open>
  \<^verbatim>\<open>ViewManager::leader_ragged_edge_cleanup\<close>. The first loop stops at the first shard
  member whose row has \<^verbatim>\<open>global_min_ready\<close> set for the subgroup; the second, run when
  there is none, takes for every sender the minimum of \<^verbatim>\<open>num_received\<close>.
\<close>

definition min_num_received :: "View \<Rightarrow> DerechoSST \<Rightarrow> nat \<Rightarrow> node_id_t list \<Rightarrow> nat \<Rightarrow> int" where
  "min_num_received Vc sst myRank shard_members col =
     fold (\<lambda>node_id m.
             let node_rank = nat (rank_of Vc node_id)
             in if \<not> failed Vc ! node_rank \<and> m > num_received (sst ! node_rank) ! col
                then num_received (sst ! node_rank) ! col else m)
       shard_members (num_received (sst ! myRank) ! col)"

definition compute_global_min ::
  "View \<Rightarrow> nat \<Rightarrow> nat \<Rightarrow> node_id_t list \<Rightarrow> nat \<Rightarrow> DerechoSST \<Rightarrow> DerechoSST" where
  "compute_global_min Vc myRank num_received_offset shard_members num_shard_senders sst =
     fold (\<lambda>n T. T[myRank := (T ! myRank)\<lparr>global_min :=
                     (global_min (T ! myRank))[num_received_offset + n :=
                        min_num_received Vc T myRank shard_members (num_received_offset + n)]\<rparr>])
       [0..<num_shard_senders] sst"

text \<open>
  The cleanup of the leader up to the two \<^verbatim>\<open>put\<close> calls that publish
  \<^verbatim>\<open>global_min\<close> and \<^verbatim>\<open>global_min_ready\<close>, and the whole function, which goes on
  to deliver in order from the leader's own row.
\<close>

definition leader_global_min ::
  "subgroup_id_t \<Rightarrow> nat \<Rightarrow> node_id_t list \<Rightarrow> nat \<Rightarrow> ViewManager \<Rightarrow> ViewManager" where
  "leader_global_min subgroup_num num_received_offset shard_members num_shard_senders vm =
     (let Vc = curr_view vm;
          myRank = local_index vm;
          sst = gmsSST vm;
          sst1 = (case find (\<lambda>node_id. global_min_ready (sst ! nat (rank_of Vc node_id)) ! subgroup_num)
                         shard_members of
                    Some node_id \<Rightarrow>
                      copy_global_min myRank (nat (rank_of Vc node_id)) num_received_offset
                        num_shard_senders sst
                  | None \<Rightarrow>
                      compute_global_min Vc myRank num_received_offset shard_members
                        num_shard_senders sst);
          sst2 = sst1[myRank := (sst1 ! myRank)\<lparr>global_min_ready :=
                    (global_min_ready (sst1 ! myRank))[subgroup_num := True]\<rparr>]
      in vm\<lparr>gmsSST := sst2\<rparr>)"




text \<open>
  The trim entry as the claim about the leader words it, for comparison with
  \<open>leader_global_min\<close>: the entry of a shard member that is not failed and has its
  ready flag set, if there is one, and otherwise the minimum of \<^verbatim>\<open>num_received\<close> over
  the shard members that are not failed.
\<close>

definition claimed_global_min ::
  "View \<Rightarrow> DerechoSST \<Rightarrow> subgroup_id_t \<Rightarrow> node_id_t list \<Rightarrow> nat \<Rightarrow> int" where
  "claimed_global_min Vc sst subgroup_num shard_members col =
     (case find (\<lambda>node_id. \<not> failed Vc ! nat (rank_of Vc node_id)
                          \<and> global_min_ready (sst ! nat (rank_of Vc node_id)) ! subgroup_num)
             shard_members of
        Some node_id \<Rightarrow> global_min (sst ! nat (rank_of Vc node_id)) ! col
      | None \<Rightarrow>
          Min (set (map (\<lambda>node_id. num_received (sst ! nat (rank_of Vc node_id)) ! col)
                     (filter (\<lambda>node_id. \<not> failed Vc ! nat (rank_of Vc node_id)) shard_members))))"





subsection \<open>Subgroup settings\<close>

record SubgroupSettings =
  shard_num :: nat
  shard_rank :: nat
  members :: "node_id_t list"
  senders :: "int list"
  sender_rank :: int
  num_received_offset :: nat
  mode :: Mode

type_synonym subgroup_shard_layout_t = "SubView list list"
type_synonym settings_map = "subgroup_id_t \<rightharpoonup> SubgroupSettings"

text \<open>
  The membership function the user supplies. It is given the subgroup type, the previous
  view if there is one, and the view under construction, and returns the layout of the
  subgroups of that type, or throws the provisioning exception (\<open>None\<close>). It takes the
  view by reference and advances \<^verbatim>\<open>next_unassigned_rank\<close> as it assigns members, so the
  model has it return the new value of that field with the layout.
\<close>

type_synonym shard_view_generator_t =
  "nat \<Rightarrow> View option \<Rightarrow> View \<Rightarrow> (subgroup_shard_layout_t \<times> int) option"

text \<open>
  Modelled from the spec: \<^verbatim>\<open>SubView::rank_of\<close>, \<^verbatim>\<open>SubView::num_senders\<close> and
  \<^verbatim>\<open>SubView::sender_rank_of\<close> belong to the view classes, whose source file is not part
  of the sources at hand. The rank of a node in a shard is its index in the member list
  or \<open>-1\<close>; the senders are the members whose \<^verbatim>\<open>is_sender\<close> flag is not zero; the
  sender rank of a member is \<open>-1\<close> if it is not a sender and otherwise the number of
  senders before it.
\<close>

definition SubView_rank_of :: "SubView \<Rightarrow> node_id_t \<Rightarrow> int" where
  "SubView_rank_of sv who = rank_of_list (SubView.members sv) who"

definition num_senders :: "SubView \<Rightarrow> nat" where
  "num_senders sv = length (filter (\<lambda>v. v \<noteq> 0) (is_sender sv))"

definition sender_rank_of :: "SubView \<Rightarrow> nat \<Rightarrow> int" where
  "sender_rank_of sv rank =
     (if is_sender sv ! rank = 0 then - 1
      else int (length (filter (\<lambda>v. v \<noteq> 0) (take rank (is_sender sv)))))"




text \<open>
  \<^verbatim>\<open>ViewManager::make_subgroup_maps\<close>. The body of the loop over the shards of one
  subgroup of the layout: the state is the view, the settings map, the shards of the
  subgroup and \<^verbatim>\<open>max_shard_senders\<close>. With a previous view the shard's
  \<^verbatim>\<open>joined\<close> and \<^verbatim>\<open>departed\<close> lists are extended by the two set differences; the
  lookups in the previous view are by \<^verbatim>\<open>at\<close> (which throws) and by \<^verbatim>\<open>operator[]\<close>.
\<close>

definition make_shard ::
  "View option \<Rightarrow> nat \<Rightarrow> nat \<Rightarrow> subgroup_id_t \<Rightarrow> nat \<Rightarrow> nat
     \<Rightarrow> View \<times> settings_map \<times> SubView list \<times> nat
     \<Rightarrow> derecho_exception + (View \<times> settings_map \<times> SubView list \<times> nat)" where
  "make_shard prev_view subgroup_type_id subgroup_index curr_subgroup_num offset shard st =
     (case st of (cv, subgroup_settings, subviews, max_shard_senders) \<Rightarrow>
        let shard_view = subviews ! shard;
            shard_size = length (SubView.members shard_view);
            num_shard_senders = num_senders shard_view;
            max_shard_senders' =
              (if num_shard_senders > max_shard_senders then shard_size else max_shard_senders);
            rank = SubView_rank_of shard_view (View.members cv ! nat (View.my_rank cv));
            shard_view1 = shard_view\<lparr>SubView.my_rank := rank\<rparr>;
            cv' =
              (if rank \<noteq> - 1
               then cv\<lparr>my_subgroups := (my_subgroups cv)(curr_subgroup_num \<mapsto> shard)\<rparr>
               else cv);
            subgroup_settings' =
              (if rank \<noteq> - 1
               then subgroup_settings(curr_subgroup_num \<mapsto>
                      \<lparr>shard_num = shard, shard_rank = nat rank,
                       SubgroupSettings.members = SubView.members shard_view1,
                       senders = is_sender shard_view1,
                       sender_rank = sender_rank_of shard_view1 (nat rank),
                       num_received_offset = offset,
                       SubgroupSettings.mode = SubView.mode shard_view1\<rparr>)
               else subgroup_settings)
        in case prev_view of
             None \<Rightarrow>
               Inr (cv', subgroup_settings', subviews[shard := shard_view1], max_shard_senders')
           | Some pv \<Rightarrow>
               (case subgroup_ids_by_type_id pv subgroup_type_id of
                  None \<Rightarrow> Inl Out_of_range
                | Some ids \<Rightarrow>
                    if length ids \<le> subgroup_index then Inl Out_of_range
                    else
                      (let prev_subgroup_id = ids ! subgroup_index
                       in if length (subgroup_shard_views pv) \<le> prev_subgroup_id
                             \<or> length (subgroup_shard_views pv ! prev_subgroup_id) \<le> shard
                          then Inl Out_of_bounds
                          else
                            (let prev_members =
                                   SubView.members (subgroup_shard_views pv ! prev_subgroup_id ! shard);
                                 curr_members = SubView.members shard_view1;
                                 shard_view2 = shard_view1
                                   \<lparr>SubView.joined := SubView.joined shard_view1
                                       @ sort (remdups (filter (\<lambda>m. m \<notin> set prev_members) curr_members)),
                                    SubView.departed := SubView.departed shard_view1
                                       @ sort (remdups (filter (\<lambda>m. m \<notin> set curr_members) prev_members))\<rparr>
                             in Inr (cv', subgroup_settings', subviews[shard := shard_view2],
                                     max_shard_senders')))))"

fun make_shards ::
  "View option \<Rightarrow> nat \<Rightarrow> nat \<Rightarrow> subgroup_id_t \<Rightarrow> nat \<Rightarrow> nat list
     \<Rightarrow> View \<times> settings_map \<times> SubView list \<times> nat
     \<Rightarrow> derecho_exception + (View \<times> settings_map \<times> SubView list \<times> nat)" where
  "make_shards prev_view ty idx num offset [] st = Inr st"
| "make_shards prev_view ty idx num offset (shard # shards) st =
     (case make_shard prev_view ty idx num offset shard st of
        Inl e \<Rightarrow> Inl e
      | Inr st' \<Rightarrow> make_shards prev_view ty idx num offset shards st')"

text \<open>
  The body of the loop over the subgroups of one type: the subgroup gets the next free
  id, its shards are processed, and their views are appended to the view's
  \<^verbatim>\<open>subgroup_shard_views\<close>. The state is the view, the settings map and
  \<^verbatim>\<open>num_received_offset\<close>.
\<close>

definition make_subgroup ::
  "View option \<Rightarrow> nat \<Rightarrow> subgroup_shard_layout_t \<Rightarrow> nat
     \<Rightarrow> View \<times> settings_map \<times> nat
     \<Rightarrow> derecho_exception + (View \<times> settings_map \<times> nat)" where
  "make_subgroup prev_view subgroup_type_id curr_type_subviews subgroup_index st =
     (case st of (cv, subgroup_settings, offset) \<Rightarrow>
        let curr_subgroup_num = length (subgroup_shard_views cv);
            ids = the (subgroup_ids_by_type_id cv subgroup_type_id);
            cv1 = cv\<lparr>subgroup_ids_by_type_id :=
                (subgroup_ids_by_type_id cv)
                  (subgroup_type_id \<mapsto> ids[subgroup_index := curr_subgroup_num])\<rparr>;
            num_shards = length (curr_type_subviews ! subgroup_index)
        in case make_shards prev_view subgroup_type_id subgroup_index curr_subgroup_num offset
                  [0..<num_shards]
                  (cv1, subgroup_settings, curr_type_subviews ! subgroup_index, 0) of
             Inl e \<Rightarrow> Inl e
           | Inr (cv2, subgroup_settings', subviews, max_shard_senders) \<Rightarrow>
               Inr (cv2\<lparr>subgroup_shard_views := subgroup_shard_views cv2 @ [subviews]\<rparr>,
                    subgroup_settings', offset + max_shard_senders))"

fun make_subgroups ::
  "View option \<Rightarrow> nat \<Rightarrow> subgroup_shard_layout_t \<Rightarrow> nat list
     \<Rightarrow> View \<times> settings_map \<times> nat
     \<Rightarrow> derecho_exception + (View \<times> settings_map \<times> nat)" where
  "make_subgroups prev_view ty layout [] st = Inr st"
| "make_subgroups prev_view ty layout (idx # idxs) st =
     (case make_subgroup prev_view ty layout idx st of
        Inl e \<Rightarrow> Inl e
      | Inr st' \<Rightarrow> make_subgroups prev_view ty layout idxs st')"

text \<open>
  The loop over the subgroup types, with the \<^verbatim>\<open>catch\<close> block that rolls the view back
  and returns 0 when the membership function throws.
\<close>

fun make_types ::
  "shard_view_generator_t \<Rightarrow> View option \<Rightarrow> int \<Rightarrow> nat list
     \<Rightarrow> View \<times> settings_map \<times> nat
     \<Rightarrow> derecho_exception + (nat \<times> View \<times> settings_map)" where
  "make_types membership_function prev_view initial_next_unassigned_rank [] st =
     (case st of (cv, subgroup_settings, offset) \<Rightarrow> Inr (offset, cv, subgroup_settings))"
| "make_types membership_function prev_view initial_next_unassigned_rank
       (subgroup_type_id # subgroup_type_ids) st =
     (case st of (cv, subgroup_settings, offset) \<Rightarrow>
        case membership_function (subgroup_type_order cv ! subgroup_type_id) prev_view cv of
          None \<Rightarrow>
            Inr (0, cv\<lparr>is_adequately_provisioned := False,
                              next_unassigned_rank := initial_next_unassigned_rank,
                              subgroup_shard_views := [],
                              subgroup_ids_by_type_id := Map.empty\<rparr>,
                 Map.empty)
        | Some (curr_type_subviews, next_rank) \<Rightarrow>
            (let num_subgroups = length curr_type_subviews;
                 cv1 = cv\<lparr>next_unassigned_rank := next_rank,
                     subgroup_ids_by_type_id :=
                       (subgroup_ids_by_type_id cv)
                         (subgroup_type_id \<mapsto> replicate num_subgroups 0)\<rparr>
             in case make_subgroups prev_view subgroup_type_id curr_type_subviews [0..<num_subgroups]
                       (cv1, subgroup_settings, offset) of
                  Inl e \<Rightarrow> Inl e
                | Inr st' \<Rightarrow>
                    make_types membership_function prev_view initial_next_unassigned_rank
                      subgroup_type_ids st'))"

definition make_subgroup_maps ::
  "shard_view_generator_t \<Rightarrow> View option \<Rightarrow> View \<Rightarrow> settings_map
     \<Rightarrow> derecho_exception + (nat \<times> View \<times> settings_map)" where
  "make_subgroup_maps membership_function prev_view cv subgroup_settings =
     make_types membership_function prev_view (next_unassigned_rank cv)
       [0..<length (subgroup_type_order cv)]
       (cv\<lparr>subgroup_shard_views := [], subgroup_ids_by_type_id := Map.empty\<rparr>,
        subgroup_settings, 0)"


subsection \<open>The start of the epoch termination\<close>

text \<open>
  \<^verbatim>\<open>ViewManager::register_predicates\<close> inserts each of its six predicates whose
  handle is not valid. Modelled from the spec: \<^verbatim>\<open>predicates.remove\<close> of the status
  table, which is not part of the sources at hand, unregisters a predicate.
\<close>

definition register_predicates :: "gms_predicate list \<Rightarrow> gms_predicate list" where
  "register_predicates ps =
     fold (\<lambda>p ps. if p \<in> set ps then ps else ps @ [p])
       [Suspected_changed, Start_join, Reject_join, Change_commit_ready,
        Leader_proposed_change, Leader_committed_changes] ps"

definition remove_predicate :: "gms_predicate \<Rightarrow> gms_predicate list \<Rightarrow> gms_predicate list" where
  "remove_predicate p ps = filter (\<lambda>q. q \<noteq> p) ps"

text \<open>
  \<^verbatim>\<open>ViewManager::terminate_epoch\<close> up to the point where it either returns, because the
  next view is not adequately provisioned, or goes on to drain the small-message
  transport and to clean the ragged edge. The arguments of the source are overwritten
  before they are read, so the model has none; it returns the new state, the settings
  map and the phase the epoch termination is in.
\<close>

datatype epoch_phase = Waiting_for_joins | Ragged_edge_cleanup nat

definition terminate_epoch ::
  "shard_view_generator_t \<Rightarrow> (nat \<Rightarrow> ip_addr_t) \<Rightarrow> ViewManager
     \<Rightarrow> derecho_exception + (ViewManager \<times> settings_map \<times> epoch_phase)" where
  "terminate_epoch membership_function inet_ntoa vm =
     (let first_call = (next_view vm = None)
      in case make_next_view inet_ntoa (curr_view vm) (gmsSST vm) of
           Inl e \<Rightarrow> Inl e
         | Inr nv \<Rightarrow>
             (case make_subgroup_maps membership_function (Some (curr_view vm)) nv Map.empty of
                Inl e \<Rightarrow> Inl e
              | Inr (next_num_received_size, nv', next_subgroup_settings) \<Rightarrow>
                  if \<not> is_adequately_provisioned nv'
                  then
                    (let ps = (if first_call
                               then remove_predicate Leader_committed_changes
                                      (register_predicates (predicates vm))
                               else predicates vm);
                         curr_num_committed =
                           num_committed (gmsSST vm ! nat (rank_of_leader (curr_view vm)))
                     in Inr (vm\<lparr>next_view := Some nv',
                                predicates := ps @ [Leader_committed_beyond curr_num_committed]\<rparr>,
                             next_subgroup_settings, Waiting_for_joins))
                  else Inr (vm\<lparr>next_view := Some nv'\<rparr>, next_subgroup_settings,
                            Ragged_edge_cleanup next_num_received_size)))"


subsection \<open>The layout of a view\<close>




subsection \<open>Joining an existing group\<close>

text \<open>
  Modelled from the spec: the TCP socket, the serialisation library, the persistence
  layer and the restart state are not part of the sources at hand. A connection is the
  list of the objects the peer has written and that are still to be read, the list of
  the objects written to it, and the number of writes that succeed before the connection
  breaks. A \<^verbatim>\<open>read\<close> fails when nothing is left to read. The stream is kept at the
  granularity of the objects the peer writes: a length is one object and the bytes that
  follow it are another.
\<close>

type_synonym DerechoParams = string
type_synonym ragged_trim_map_t = "(subgroup_id_t \<times> (nat \<times> RaggedTrim) list) list"

datatype message =
  Node_id node_id_t
  | Response JoinResponseCode node_id_t
  | Size nat
  | Address ip_addr_t
  | Port nat
  | Serialized_view View
  | Serialized_params DerechoParams
  | Serialized_trim RaggedTrim
  | Commit_flag bool

record socket =
  incoming :: "message list"
  outgoing :: "message list"
  writable :: nat

definition socket_write :: "socket \<Rightarrow> message \<Rightarrow> bool \<times> socket" where
  "socket_write s m =
     (if 0 < writable s
      then (True, s\<lparr>outgoing := outgoing s @ [m], writable := writable s - 1\<rparr>)
      else (False, s))"

text \<open>
  A read of a variable of one type from a stream whose next object is of another has no
  counterpart in the model; it is the outcome \<open>Misframed\<close>.
\<close>

datatype 'a read_result = Read_failed | Misframed | Read_ok 'a socket

definition socket_read :: "(message \<Rightarrow> 'a option) \<Rightarrow> socket \<Rightarrow> 'a read_result" where
  "socket_read kind s =
     (case incoming s of
        [] \<Rightarrow> Read_failed
      | m # ms \<Rightarrow> (case kind m of None \<Rightarrow> Misframed | Some x \<Rightarrow> Read_ok x (s\<lparr>incoming := ms\<rparr>)))"

fun as_response :: "message \<Rightarrow> JoinResponseCode option" where
  "as_response (Response code sender) = Some code"
| "as_response m = None"

fun as_size :: "message \<Rightarrow> nat option" where
  "as_size (Size n) = Some n"
| "as_size m = None"

fun as_address :: "message \<Rightarrow> ip_addr_t option" where
  "as_address (Address a) = Some a"
| "as_address m = None"

fun as_port :: "message \<Rightarrow> nat option" where
  "as_port (Port p) = Some p"
| "as_port m = None"

fun as_view :: "message \<Rightarrow> View option" where
  "as_view (Serialized_view v) = Some v"
| "as_view m = None"

fun as_params :: "message \<Rightarrow> DerechoParams option" where
  "as_params (Serialized_params p) = Some p"
| "as_params m = None"

fun as_trim :: "message \<Rightarrow> RaggedTrim option" where
  "as_trim (Serialized_trim t) = Some t"
| "as_trim m = None"

fun as_flag :: "message \<Rightarrow> bool option" where
  "as_flag (Commit_flag b) = Some b"
| "as_flag m = None"

text \<open>
  What \<^verbatim>\<open>ViewManager::receive_configuration\<close> takes from the configuration, the disk
  and the network: the four ports, the view and the ragged trims saved on disk, the
  order of the subgroup types, the sizes of the serialised objects, and the connection
  that opening a socket to an address gives.
\<close>

record join_config =
  conf_gms_port :: nat
  conf_rpc_port :: nat
  conf_sst_port :: nat
  conf_rdmc_port :: nat
  saved_view :: "View option"
  saved_ragged_trim :: ragged_trim_map_t
  local_type_order :: "nat list"
  view_bytes_size :: "View \<Rightarrow> nat"
  trim_bytes_size :: "RaggedTrim \<Rightarrow> nat"
  connect :: "ip_addr_t \<Rightarrow> nat \<Rightarrow> socket"

text \<open>
  The exceptions of \<^verbatim>\<open>receive_configuration\<close>, named after their messages.
  \<open>Undefined_behaviour\<close> is not thrown by the source: it marks a run that goes on with a
  variable that a failed, unchecked read has left unset, or that dereferences a view
  that is not on disk or the first entry of an empty map. \<open>Misframed_stream\<close> is the
  outcome of a \<open>Misframed\<close> read.
\<close>

datatype config_error =
  Failed_to_exchange_ids
  | ID_already_in_use
  | Restart_leader_crashed
  | Leader_crashed_before_view
  | Undefined_behaviour
  | Misframed_stream

text \<open>
  The body of the \<^verbatim>\<open>do\<close> loop: the node writes its id and reads the response, and on
  a redirect it reads the address and the port of the leader, none of the three reads
  being checked.
\<close>

datatype exchange_result =
  Exchange_failed config_error
  | Exchanged JoinResponseCode socket
  | Redirected ip_addr_t nat

definition exchange_ids_once :: "node_id_t \<Rightarrow> socket \<Rightarrow> exchange_result" where
  "exchange_ids_once my_id leader_connection =
     (case socket_write leader_connection (Node_id my_id) of
        (success, c1) \<Rightarrow>
          if \<not> success then Exchange_failed Failed_to_exchange_ids
          else
            (case socket_read as_response c1 of
               Read_failed \<Rightarrow> Exchange_failed Failed_to_exchange_ids
             | Misframed \<Rightarrow> Exchange_failed Misframed_stream
             | Read_ok code c2 \<Rightarrow>
                 if code = ID_IN_USE then Exchange_failed ID_already_in_use
                 else if code = LEADER_REDIRECT
                 then
                   (case socket_read as_size c2 of
                      Read_failed \<Rightarrow> Exchange_failed Undefined_behaviour
                    | Misframed \<Rightarrow> Exchange_failed Misframed_stream
                    | Read_ok ip_addr_size c3 \<Rightarrow>
                        (case socket_read as_address c3 of
                           Read_failed \<Rightarrow> Exchange_failed Undefined_behaviour
                         | Misframed \<Rightarrow> Exchange_failed Misframed_stream
                         | Read_ok leader_ip c4 \<Rightarrow>
                             (case socket_read as_port c4 of
                                Read_failed \<Rightarrow> Exchange_failed Undefined_behaviour
                              | Misframed \<Rightarrow> Exchange_failed Misframed_stream
                              | Read_ok leader_gms_port c5 \<Rightarrow>
                                  Redirected leader_ip leader_gms_port)))
                 else Exchanged code c2))"

text \<open>
  The \<^verbatim>\<open>do\<close> loop: on a redirect the connection is replaced by one to the address read
  and the exchange starts again. Nothing bounds the number of redirects.
\<close>

partial_function (option) exchange_ids ::
  "(ip_addr_t \<Rightarrow> nat \<Rightarrow> socket) \<Rightarrow> node_id_t \<Rightarrow> socket
     \<Rightarrow> (config_error + JoinResponseCode \<times> socket) option" where
  "exchange_ids connect_to my_id leader_connection =
     (case exchange_ids_once my_id leader_connection of
        Exchange_failed e \<Rightarrow> Some (Inl e)
      | Exchanged code c \<Rightarrow> Some (Inr (code, c))
      | Redirected leader_ip leader_gms_port \<Rightarrow>
          exchange_ids connect_to my_id (connect_to leader_ip leader_gms_port))"

text \<open>
  In restart mode the node sends the view it has on disk and, for every subgroup of the
  logged ragged trims, the first trim of the subgroup's map, every write being checked.
\<close>

fun send_ragged_trims ::
  "(RaggedTrim \<Rightarrow> nat) \<Rightarrow> ragged_trim_map_t \<Rightarrow> socket \<Rightarrow> config_error + socket" where
  "send_ragged_trims bytes_size [] c = Inr c"
| "send_ragged_trims bytes_size (id_to_shard_map # others) c =
     (case snd id_to_shard_map of
        [] \<Rightarrow> Inl Undefined_behaviour
      | first_shard # shards \<Rightarrow>
          (case socket_write c (Size (bytes_size (snd first_shard))) of
             (success, c1) \<Rightarrow>
               if \<not> success then Inl Restart_leader_crashed
               else
                 (case socket_write c1 (Serialized_trim (snd first_shard)) of
                    (success, c2) \<Rightarrow>
                      if \<not> success then Inl Restart_leader_crashed
                      else send_ragged_trims bytes_size others c2)))"

definition send_restart_state :: "join_config \<Rightarrow> socket \<Rightarrow> config_error + socket" where
  "send_restart_state cfg c =
     (case saved_view cfg of
        None \<Rightarrow> Inl Undefined_behaviour
      | Some v \<Rightarrow>
          (case socket_write c (Size (view_bytes_size cfg v)) of
             (success, c1) \<Rightarrow>
               if \<not> success then Inl Restart_leader_crashed
               else
                 (case socket_write c1 (Serialized_view v) of
                    (success, c2) \<Rightarrow>
                      if \<not> success then Inl Restart_leader_crashed
                      else
                        (case socket_write c2 (Size (length (saved_ragged_trim cfg))) of
                           (success, c3) \<Rightarrow>
                             if \<not> success then Inl Restart_leader_crashed
                             else send_ragged_trims (trim_bytes_size cfg)
                                    (saved_ragged_trim cfg) c3))))"

text \<open>The four ports are written without a check.\<close>

definition send_ports :: "join_config \<Rightarrow> socket \<Rightarrow> socket" where
  "send_ports cfg c =
     snd (socket_write
       (snd (socket_write
         (snd (socket_write
           (snd (socket_write c (Port (conf_gms_port cfg))))
           (Port (conf_rpc_port cfg))))
         (Port (conf_sst_port cfg))))
       (Port (conf_rdmc_port cfg)))"

text \<open>
  The map of the ragged trims is kept as the list of its entries in ascending order of
  the keys, and so is each inner map. \<open>trim_emplace\<close> is
  \<^verbatim>\<open>logged_ragged_trim[subgroup_id].emplace(shard_num, ragged_trim)\<close>, which keeps an
  entry that is already there.
\<close>

fun map_emplace :: "nat \<Rightarrow> 'v \<Rightarrow> (nat \<times> 'v) list \<Rightarrow> (nat \<times> 'v) list" where
  "map_emplace k v [] = [(k, v)]"
| "map_emplace k v (e # es) =
     (if k < fst e then (k, v) # e # es
      else if k = fst e then e # es
      else e # map_emplace k v es)"

fun trim_emplace :: "RaggedTrim \<Rightarrow> ragged_trim_map_t \<Rightarrow> ragged_trim_map_t" where
  "trim_emplace t [] = [(RaggedTrim.subgroup_id t, [(RaggedTrim.shard_num t, t)])]"
| "trim_emplace t (e # es) =
     (if RaggedTrim.subgroup_id t < fst e
      then (RaggedTrim.subgroup_id t, [(RaggedTrim.shard_num t, t)]) # e # es
      else if RaggedTrim.subgroup_id t = fst e
      then (fst e, map_emplace (RaggedTrim.shard_num t) t (snd e)) # es
      else e # trim_emplace t es)"

fun read_ragged_trims ::
  "nat \<Rightarrow> socket \<Rightarrow> ragged_trim_map_t \<Rightarrow> config_error + ragged_trim_map_t \<times> socket" where
  "read_ragged_trims 0 c trims = Inr (trims, c)"
| "read_ragged_trims (Suc n) c trims =
     (case socket_read as_size c of
        Read_failed \<Rightarrow> Inl Undefined_behaviour
      | Misframed \<Rightarrow> Inl Misframed_stream
      | Read_ok size_of_ragged_trim c1 \<Rightarrow>
          (case socket_read as_trim c1 of
             Read_failed \<Rightarrow> Inl Undefined_behaviour
           | Misframed \<Rightarrow> Inl Misframed_stream
           | Read_ok ragged_trim c2 \<Rightarrow>
               read_ragged_trims n c2 (trim_emplace ragged_trim trims)))"

text \<open>
  The body of the \<^verbatim>\<open>while\<close> loop: a view, the parameters, in restart mode the ragged
  trims, and the flag that says whether the view is committed. The read of the length of
  the parameters is not checked; the read that follows it is.
\<close>

definition read_round ::
  "bool \<Rightarrow> socket \<Rightarrow> ragged_trim_map_t
     \<Rightarrow> config_error + View \<times> DerechoParams \<times> ragged_trim_map_t \<times> bool \<times> socket" where
  "read_round is_total_restart c trims =
     (case socket_read as_size c of
        Read_failed \<Rightarrow> Inl Leader_crashed_before_view
      | Misframed \<Rightarrow> Inl Misframed_stream
      | Read_ok size_of_view c1 \<Rightarrow>
     (case socket_read as_view c1 of
        Read_failed \<Rightarrow> Inl Leader_crashed_before_view
      | Misframed \<Rightarrow> Inl Misframed_stream
      | Read_ok v c2 \<Rightarrow>
     (case (case socket_read as_size c2 of
              Read_failed \<Rightarrow> Inr c2
            | Misframed \<Rightarrow> Inl Misframed_stream
            | Read_ok size_of_derecho_params c3 \<Rightarrow> Inr c3) of
        Inl e \<Rightarrow> Inl e
      | Inr c3 \<Rightarrow>
     (case socket_read as_params c3 of
        Read_failed \<Rightarrow> Inl Leader_crashed_before_view
      | Misframed \<Rightarrow> Inl Misframed_stream
      | Read_ok params c4 \<Rightarrow>
     (case (if is_total_restart
            then (case socket_read as_size c4 of
                    Read_failed \<Rightarrow> Inl Undefined_behaviour
                  | Misframed \<Rightarrow> Inl Misframed_stream
                  | Read_ok num_of_ragged_trims c5 \<Rightarrow>
                      read_ragged_trims num_of_ragged_trims c5 [])
            else Inr (trims, c4)) of
        Inl e \<Rightarrow> Inl e
      | Inr (trims', c6) \<Rightarrow>
     (case socket_read as_flag c6 of
        Read_failed \<Rightarrow> Inl Leader_crashed_before_view
      | Misframed \<Rightarrow> Inl Misframed_stream
      | Read_ok view_confirmed c7 \<Rightarrow> Inr (v, params, trims', view_confirmed, c7)))))))"

text \<open>
  The \<^verbatim>\<open>while\<close> loop: rounds are read until one carries the flag set. Every round
  takes at least the length of a view off the stream or throws, so the loop ends.
\<close>

function await_view ::
  "bool \<Rightarrow> socket \<Rightarrow> ragged_trim_map_t
     \<Rightarrow> config_error + View \<times> DerechoParams \<times> ragged_trim_map_t \<times> socket" where
  "await_view is_total_restart c trims =
     (case read_round is_total_restart c trims of
        Inl e \<Rightarrow> Inl e
      | Inr (v, params, trims', view_confirmed, c') \<Rightarrow>
          if view_confirmed then Inr (v, params, trims', c')
          else await_view is_total_restart c' trims')"
  by pat_completeness auto
termination
proof (relation "measure (\<lambda>(r, c, t). length (incoming c))")
  show "wf (measure (\<lambda>(r, c, t). length (incoming c)))" by simp
next
  fix is_total_restart c trims b v y params ya trims' yb view_confirmed c'
  assume r: "read_round is_total_restart c trims = Inr b" "(v, y) = b" "(params, ya) = y"
    "(trims', yb) = ya" "(view_confirmed, c') = yb" "\<not> view_confirmed"
  have rd: "length (incoming s') < length (incoming s)"
    if "socket_read kind s = Read_ok x s'" for kind :: "message \<Rightarrow> 'a option" and s x s'
    using that by (auto simp: socket_read_def split: list.splits option.splits)
  have rt: "length (incoming s') \<le> length (incoming s)"
    if "read_ragged_trims n s acc = Inr (acc', s')" for n s acc acc' s'
    using that
  proof (induction n arbitrary: s acc)
    case 0
    then show ?case by simp
  next
    case (Suc n)
    from Suc.prems obtain z s1 t s2 where
      a: "socket_read as_size s = Read_ok z s1" "socket_read as_trim s1 = Read_ok t s2"
      "read_ragged_trims n s2 (trim_emplace t acc) = Inr (acc', s')"
      by (auto split: read_result.splits)
    from rd[OF a(1)] rd[OF a(2)] Suc.IH[OF a(3)] show ?case by simp
  qed
  from r(1) r(2-5)[symmetric] obtain z c1 where
    first: "socket_read as_size c = Read_ok z c1"
    and rest: "length (incoming c') \<le> length (incoming c1)"
    unfolding read_round_def
    by (auto split: read_result.splits sum.splits if_splits dest!: rd rt)
  from rd[OF first] rest have "length (incoming c') < length (incoming c)" by simp
  then show "((is_total_restart, c', trims'), is_total_restart, c, trims)
               \<in> measure (\<lambda>(r, c, t). length (incoming c))" by simp
qed

text \<open>
  \<^verbatim>\<open>ViewManager::receive_configuration\<close> returns whether the node restarts, with the
  view and the parameters received, the ragged trims of the restart state and the
  connection to the leader, or throws; \<open>None\<close> is a run that is redirected for ever.
  The view loaded from disk in restart mode is overwritten by the first round that is
  read, so only the view received is returned.
\<close>

definition receive_configuration ::
  "join_config \<Rightarrow> node_id_t \<Rightarrow> socket
     \<Rightarrow> (config_error + bool \<times> View \<times> DerechoParams \<times> ragged_trim_map_t \<times> socket) option" where
  "receive_configuration cfg my_id leader_connection =
     (case exchange_ids (connect cfg) my_id leader_connection of
        None \<Rightarrow> None
      | Some (Inl e) \<Rightarrow> Some (Inl e)
      | Some (Inr (code, c)) \<Rightarrow>
          Some (let is_total_restart = (code = TOTAL_RESTART)
                in case (if is_total_restart then send_restart_state cfg c else Inr c) of
                     Inl e \<Rightarrow> Inl e
                   | Inr c1 \<Rightarrow>
                       (case await_view is_total_restart (send_ports cfg c1)
                               (if is_total_restart then saved_ragged_trim cfg else []) of
                          Inl e \<Rightarrow> Inl e
                        | Inr (v, params, trims, c2) \<Rightarrow>
                            Inr (is_total_restart,
                                 v\<lparr>subgroup_type_order := local_type_order cfg\<rparr>,
                                 params, trims, c2))))"

text \<open>
  For the statements about the exchange: what the leader writes in one round of the
  commit protocol, what a restarting node sends before its ports, the four ports, and
  the map of the ragged trims read in a round.
\<close>

record round =
  round_view_size :: nat
  round_view :: View
  round_params_size :: nat
  round_params :: DerechoParams
  round_trims :: "(nat \<times> RaggedTrim) list"
  round_confirmed :: bool

definition trim_messages :: "(nat \<times> RaggedTrim) list \<Rightarrow> message list" where
  "trim_messages ts = concat (map (\<lambda>e. [Size (fst e), Serialized_trim (snd e)]) ts)"

definition round_messages :: "bool \<Rightarrow> round \<Rightarrow> message list" where
  "round_messages is_total_restart r =
     [Size (round_view_size r), Serialized_view (round_view r),
      Size (round_params_size r), Serialized_params (round_params r)]
     @ (if is_total_restart
        then Size (length (round_trims r)) # trim_messages (round_trims r) else [])
     @ [Commit_flag (round_confirmed r)]"

definition restart_messages :: "join_config \<Rightarrow> View \<Rightarrow> message list" where
  "restart_messages cfg v =
     [Size (view_bytes_size cfg v), Serialized_view v, Size (length (saved_ragged_trim cfg))]
     @ concat (map (\<lambda>e. [Size (trim_bytes_size cfg (snd (hd (snd e)))),
                           Serialized_trim (snd (hd (snd e)))])
                 (saved_ragged_trim cfg))"

definition port_messages :: "join_config \<Rightarrow> message list" where
  "port_messages cfg =
     [Port (conf_gms_port cfg), Port (conf_rpc_port cfg),
      Port (conf_sst_port cfg), Port (conf_rdmc_port cfg)]"

definition received_trims :: "(nat \<times> RaggedTrim) list \<Rightarrow> ragged_trim_map_t" where
  "received_trims ts = fold (\<lambda>e. trim_emplace (snd e)) ts []"


subsection \<open>The partition test as the claim words it\<close>



subsection \<open>The states the membership triggers reach\<close>






section \<open>Example states\<close>

text \<open>
  A view of three members and rows of its status table, used to instantiate the
  theorems below at concrete inputs. The change vectors have room for four entries.
\<close>

definition example_row :: "bool \<Rightarrow> node_id_t list \<Rightarrow> int \<Rightarrow> int \<Rightarrow> int \<Rightarrow> int \<Rightarrow> sst_row" where
  "example_row rp chs nc ncm na ni =
     \<lparr>sst_row.vid = 0, suspected = [False, False, False], rip = rp, wedged = False,
      changes = chs, joiner_ips = [0, 0, 0, 0], joiner_gms_ports = [0, 0, 0, 0],
      joiner_rpc_ports = [0, 0, 0, 0], joiner_sst_ports = [0, 0, 0, 0],
      joiner_rdmc_ports = [0, 0, 0, 0],
      num_changes = nc, num_committed = ncm, num_acked = na, num_installed = ni,
      num_received = [], global_min = [], global_min_ready = [], delivered_num = []\<rparr>"

definition example_view :: "int \<Rightarrow> bool list \<Rightarrow> int \<Rightarrow> View" where
  "example_view me fl nf =
     \<lparr>View.vid = 0, View.members = [10, 11, 12],
      member_ips_and_ports = [(''a'', 1, 2, 3, 4), (''b'', 1, 2, 3, 4), (''c'', 1, 2, 3, 4)],
      failed = fl, num_failed = nf, View.joined = [], View.departed = [],
      num_members = 3, View.my_rank = me, next_unassigned_rank = 0,
      is_adequately_provisioned = True, i_know_i_am_leader = False,
      subgroup_type_order = [], subgroup_shard_views = [],
      subgroup_ids_by_type_id = Map.empty, my_subgroups = Map.empty\<rparr>"

definition example_vm :: "View \<Rightarrow> DerechoSST \<Rightarrow> ViewManager" where
  "example_vm v sst =
     \<lparr>curr_view = v, gmsSST = sst, last_suspected = [False, False, False],
      frozen = [], multicast_wedged = False,
      multicast_group = \<lparr>locally_stable_rdmc_messages = (\<lambda>g. Map.empty),
                         locally_stable_sst_messages = (\<lambda>g. Map.empty), deliveries = []\<rparr>,
      any_persistent_objects = False, ragged_trim_files = Map.empty,
      next_view = None, predicates = []\<rparr>"

definition commit_example :: ViewManager where
  "commit_example =
     example_vm (example_view 0 [False, False, True] 1)
       [example_row False [12, 0, 0, 0] 3 1 3 0,
        example_row False [12, 0, 0, 0] 3 1 2 0,
        example_row False [0, 0, 0, 0] 1 0 1 0]"



text \<open>
  The leader with four proposed, uncommitted changes in a change vector of four entries,
  and a client that asks to join as node 14.
\<close>

definition full_example :: ViewManager where
  "full_example =
     example_vm (example_view 0 [False, False, False] 0)
       [example_row False [13, 14, 15, 16] 4 0 4 0,
        example_row False [13, 14, 15, 16] 4 0 3 0,
        example_row False [13, 14, 15, 16] 4 0 3 0]"

definition join_example :: join_request where
  "join_example =
     \<lparr>joiner_ip_packed = 16777343, joining_client_id = 17, joiner_gms_port = 23580,
      joiner_rpc_port = 28366, joiner_sst_port = 37683, joiner_rdmc_port = 31675\<rparr>"

text \<open>
  The leader's row after two committed changes: node 12 leaves and node 13 joins.
\<close>

definition next_view_table :: DerechoSST where
  "next_view_table =
     [example_row False [12, 13, 0, 0] 2 2 2 0,
      example_row False [12, 13, 0, 0] 2 2 2 0,
      example_row False [12, 13, 0, 0] 2 2 2 0]"

definition example_ntoa :: "nat \<Rightarrow> ip_addr_t" where
  "example_ntoa a = ''127.0.0.1''"

text \<open>
  A shard of all three members with one sender column. The member of rank 0 has decided
  a trim of 5 and set its ready flag, and is marked failed; the member of rank 1 is the
  new shard leader.
\<close>

definition ragged_row :: "int \<Rightarrow> bool \<Rightarrow> int \<Rightarrow> int \<Rightarrow> sst_row" where
  "ragged_row gm ready nr dn =
     (example_row False [10, 0, 0, 0] 1 1 1 0)
       \<lparr>num_received := [nr], global_min := [gm], global_min_ready := [ready],
        delivered_num := [dn]\<rparr>"

definition ragged_example :: ViewManager where
  "ragged_example =
     example_vm (example_view 1 [True, False, False] 1)
       [ragged_row 5 True 5 5, ragged_row 0 False 7 5, ragged_row 0 False 6 5]"





text \<open>
  Two subgroup types. A subgroup of the first has one shard of all the members of the
  view, every one a sender; a subgroup of the second needs three members.
\<close>

definition example_shard :: "node_id_t list \<Rightarrow> SubView" where
  "example_shard ms =
     \<lparr>SubView.mode = ORDERED, SubView.members = ms, is_sender = map (\<lambda>m. 1) ms,
      SubView.joined = [], SubView.departed = [], SubView.my_rank = - 1\<rparr>"


text \<open>
  A membership function that assigns by rank: the subgroup of the first type is the
  first member alone, and the subgroup of the second type takes the members from
  \<open>next_unassigned_rank\<close> on and needs two of them. In the view of three members both
  are provisioned; node 12 has been reported, and its removal is acknowledged and
  committed.
\<close>

definition rank_membership :: shard_view_generator_t where
  "rank_membership subgroup_type prev_view cv =
     (if subgroup_type = 7 then Some ([[example_shard [View.members cv ! 0]]], 1)
      else if num_members cv - next_unassigned_rank cv < 2 then None
      else Some ([[example_shard (drop (nat (next_unassigned_rank cv)) (View.members cv))]],
                 num_members cv))"

definition provisioned_view :: View where
  "provisioned_view =
     (example_view 0 [False, False, True] 1)
       \<lparr>next_unassigned_rank := 3, subgroup_type_order := [7, 8],
        subgroup_shard_views := [[example_shard [10]], [example_shard [11, 12]]],
        subgroup_ids_by_type_id := [0 \<mapsto> [0], 1 \<mapsto> [1]],
        my_subgroups := [0 \<mapsto> 0]\<rparr>"

definition leave_table :: DerechoSST where
  "leave_table =
     [example_row False [12, 0, 0, 0] 1 1 1 0,
      example_row False [12, 0, 0, 0] 1 1 1 0,
      example_row False [12, 0, 0, 0] 1 1 1 0]"

definition stall_example :: ViewManager where
  "stall_example = example_vm provisioned_view leave_table"

definition stall_next_view :: View where
  "stall_next_view =
     \<lparr>View.vid = 1, View.members = [10, 11],
      member_ips_and_ports = [(''a'', 1, 2, 3, 4), (''b'', 1, 2, 3, 4)],
      failed = [False, False], num_failed = 0, View.joined = [], View.departed = [12],
      num_members = 2, View.my_rank = 0, next_unassigned_rank = 2,
      is_adequately_provisioned = True, i_know_i_am_leader = False,
      subgroup_type_order = [7, 8], subgroup_shard_views = [],
      subgroup_ids_by_type_id = Map.empty, my_subgroups = Map.empty\<rparr>"

text \<open>
  The next view once the subgroup of the first type has been assigned, and the settings
  of that subgroup.
\<close>

definition reached_view :: View where
  "reached_view =
     stall_next_view
       \<lparr>next_unassigned_rank := 1,
        subgroup_shard_views := [[(example_shard [10])\<lparr>SubView.my_rank := 0\<rparr>]],
        subgroup_ids_by_type_id := [0 \<mapsto> [0]],
        my_subgroups := [0 \<mapsto> 0]\<rparr>"

definition reached_settings :: settings_map where
  "reached_settings =
     [0 \<mapsto> \<lparr>shard_num = 0, shard_rank = 0, SubgroupSettings.members = [10],
             senders = [1], sender_rank = 0, num_received_offset = 0,
             SubgroupSettings.mode = ORDERED\<rparr>]"

text \<open>
  The view of three members with the two subgroup types, as the member of rank \<open>me\<close>
  has it before the subgroups are assigned and as it receives it from the leader, and
  the settings of a subgroup of all three members for the member of a given rank.
\<close>

definition typed_view :: "int \<Rightarrow> View" where
  "typed_view me = (example_view me [False, False, False] 0)\<lparr>subgroup_type_order := [7, 8]\<rparr>"

definition received_view :: "int \<Rightarrow> View" where
  "received_view me =
     (typed_view me)
       \<lparr>next_unassigned_rank := 3,
        subgroup_shard_views := [[example_shard [10, 11, 12]], [example_shard [10, 11, 12]]],
        subgroup_ids_by_type_id := [0 \<mapsto> [0], 1 \<mapsto> [1]]\<rparr>"




text \<open>
  A joining node with id 5 and a leader with id 10 that proposes a view, aborts it and
  then commits the view of three members; in restart mode every round carries one
  ragged trim. Another node answers with a redirect to the leader. The joining node has
  a view and one ragged trim on disk.
\<close>

definition example_trim :: RaggedTrim where
  "example_trim =
     \<lparr>RaggedTrim.subgroup_id = 0, RaggedTrim.shard_num = 0, RaggedTrim.vid = 0,
      leader_id = 10, max_received_by_sender = [5]\<rparr>"

definition example_round :: "View \<Rightarrow> bool \<Rightarrow> round" where
  "example_round v confirmed =
     \<lparr>round_view_size = 120, round_view = v, round_params_size = 6,
      round_params = ''params'', round_trims = [(40, example_trim)],
      round_confirmed = confirmed\<rparr>"

definition leader_socket :: "JoinResponseCode \<Rightarrow> socket" where
  "leader_socket code =
     \<lparr>incoming = Response code 10
        # concat (map (round_messages (code = TOTAL_RESTART))
            ([example_round (typed_view 1) False] @ [example_round (received_view 1) True])),
      outgoing = [], writable = 16\<rparr>"

definition redirecting_socket :: socket where
  "redirecting_socket =
     \<lparr>incoming = [Response LEADER_REDIRECT 11, Size 8, Address ''10.0.0.2'', Port 23580],
      outgoing = [], writable = 16\<rparr>"

definition joiner_config :: join_config where
  "joiner_config =
     \<lparr>conf_gms_port = 23580, conf_rpc_port = 28366, conf_sst_port = 37683,
      conf_rdmc_port = 31675, saved_view = Some (typed_view 1),
      saved_ragged_trim = [(0, [(0, example_trim)])], local_type_order = [7, 8],
      view_bytes_size = (\<lambda>v. 120), trim_bytes_size = (\<lambda>t. 40),
      connect = (\<lambda>leader_ip leader_gms_port. leader_socket OK)\<rparr>"


section \<open>Properties\<close>

subsection \<open>The leader and the minimum of the acknowledgements\<close>

lemma first_not_failed_ge: "- 1 \<le> first_not_failed fl"
  by (induction fl) (auto simp: Let_def)

lemma first_not_failed_range:
  "first_not_failed fl = r \<Longrightarrow> 0 \<le> r \<Longrightarrow> nat r < length fl \<and> \<not> fl ! nat r"
proof (induction fl arbitrary: r)
  case Nil then show ?case by simp
next
  case (Cons f fs)
  show ?case
  proof (cases f)
    case False
    with Cons.prems show ?thesis by simp
  next
    case True
    with Cons.prems have ne: "first_not_failed fs \<noteq> - 1" and r: "r = first_not_failed fs + 1"
      by (auto simp: Let_def split: if_splits)
    have ge: "0 \<le> first_not_failed fs" using ne first_not_failed_ge[of fs] by linarith
    from Cons.IH[OF refl ge] r ge show ?thesis by (simp add: nat_add_distrib)
  qed
qed

lemma first_not_failed_least:
  "first_not_failed fl = r \<Longrightarrow> 0 \<le> r \<Longrightarrow> n < nat r \<Longrightarrow> fl ! n"
proof (induction fl arbitrary: r n)
  case Nil then show ?case by simp
next
  case (Cons f fs)
  show ?case
  proof (cases f)
    case False with Cons.prems show ?thesis by simp
  next
    case True
    with Cons.prems have r: "r = first_not_failed fs + 1" and ne: "first_not_failed fs \<noteq> - 1"
      by (auto simp: Let_def split: if_splits)
    with first_not_failed_ge[of fs] have ge: "0 \<le> first_not_failed fs" by linarith
    show ?thesis
    proof (cases n)
      case 0 with True show ?thesis by simp
    next
      case (Suc k)
      with Cons.prems r ge have "k < nat (first_not_failed fs)" by linarith
      from Cons.IH[OF refl ge this] Suc show ?thesis by simp
    qed
  qed
qed

lemma first_not_failed_none:
  "first_not_failed fl = - 1 \<longleftrightarrow> (\<forall>n<length fl. fl ! n)"
proof (induction fl)
  case Nil show ?case by simp
next
  case (Cons f fs)
  have "0 \<le> first_not_failed fs + 1" using first_not_failed_ge[of fs] by linarith
  then show ?case using Cons by (auto simp: Let_def nth_Cons split: nat.splits)
qed

lemma fold_min_le_init:
  "fold (\<lambda>n m. if \<not> fl ! n \<and> a n < m then a n else m) ns (m0::int) \<le> m0"
proof (induction ns arbitrary: m0)
  case Nil show ?case by simp
next
  case (Cons x xs)
  show ?case using Cons[of "a x"] Cons[of m0] by auto
qed

lemma fold_min_le_member:
  "n \<in> set ns \<Longrightarrow> \<not> fl ! n \<Longrightarrow>
   fold (\<lambda>n m. if \<not> fl ! n \<and> a n < m then a n else m) ns (m0::int) \<le> a n"
proof (induction ns arbitrary: m0)
  case Nil then show ?case by simp
next
  case (Cons x xs)
  show ?case
  proof (cases "n = x")
    case True
    then show ?thesis using Cons.prems fold_min_le_init[of fl a xs "a x"] fold_min_le_init[of fl a xs m0]
      by auto
  next
    case False
    with Cons.prems have "n \<in> set xs" by simp
    from Cons.IH[OF this Cons.prems(2)] show ?thesis by auto
  qed
qed

lemma fold_min_attained:
  "fold (\<lambda>n m. if \<not> fl ! n \<and> a n < m then a n else m) ns (m0::int) = m0
   \<or> (\<exists>n\<in>set ns. \<not> fl ! n \<and> fold (\<lambda>n m. if \<not> fl ! n \<and> a n < m then a n else m) ns m0 = a n)"
proof (induction ns arbitrary: m0)
  case Nil show ?case by simp
next
  case (Cons x xs)
  show ?case using Cons[of "a x"] Cons[of m0] by auto
qed


lemma min_acked_le_nonfailed:
  "n < length fl \<Longrightarrow> \<not> fl ! n \<Longrightarrow> min_acked sst myRank fl \<le> num_acked (sst ! n)"
  unfolding min_acked_def by (rule fold_min_le_member) auto

lemma min_acked_attained:
  "min_acked sst myRank fl = num_acked (sst ! myRank)
   \<or> (\<exists>n<length fl. \<not> fl ! n \<and> min_acked sst myRank fl = num_acked (sst ! n))"
  unfolding min_acked_def
  using fold_min_attained[of fl "\<lambda>n. num_acked (sst ! n)" "[0..<length fl]" "num_acked (sst ! myRank)"]
  by auto

lemma min_acked_is_Min:
  assumes "myRank < length fl" "\<not> fl ! myRank"
  shows "min_acked sst myRank fl = Min {num_acked (sst ! n) |n. n < length fl \<and> \<not> fl ! n}"
proof -
  let ?S = "{num_acked (sst ! n) |n. n < length fl \<and> \<not> fl ! n}"
  have fin: "finite ?S" by simp
  have mem: "min_acked sst myRank fl \<in> ?S"
    using min_acked_attained[of sst myRank fl] assms by auto
  have "\<forall>x\<in>?S. min_acked sst myRank fl \<le> x"
    using min_acked_le_nonfailed by auto
  with fin mem show ?thesis by (metis (no_types, lifting) Min_eqI)
qed

lemma upt_small: "[0..<2] = [0, 1]" "[0..<3] = [0, 1, 2]" "[0..<4] = [0, 1, 2, 3]"
  by (simp_all add: upt_rec)


subsection \<open>The order of the change counters is kept by every trigger\<close>













lemma nth_update_field:
  assumes "g x = g (T ! j)"
  shows "g (T[j := x] ! i) = g (T ! i)"
proof (cases "j < length T")
  case True
  then show ?thesis using assms by (cases "i = j") simp_all
next
  case False
  then show ?thesis by (simp add: list_update_beyond)
qed



subsection \<open>The partition check\<close>















subsection \<open>Ranks and the loops of the next view\<close>

lemma rank_of_list_ge: "- 1 \<le> rank_of_list ms x"
  by (induction ms) (auto simp: Let_def)

lemma rank_of_list_none: "rank_of_list ms x = - 1 \<longleftrightarrow> x \<notin> set ms"
proof (induction ms)
  case Nil show ?case by simp
next
  case (Cons m ms)
  have "rank_of_list ms x + 1 \<noteq> - 1" using rank_of_list_ge[of ms x] by linarith
  with Cons show ?case by (auto simp: Let_def)
qed

lemma rank_of_list_nth:
  "x \<in> set ms \<Longrightarrow> 0 \<le> rank_of_list ms x \<and> nat (rank_of_list ms x) < length ms
      \<and> ms ! nat (rank_of_list ms x) = x"
proof (induction ms)
  case Nil then show ?case by simp
next
  case (Cons m ms)
  show ?case
  proof (cases "m = x")
    case True then show ?thesis by simp
  next
    case False
    with Cons.prems have "x \<in> set ms" by simp
    from Cons.IH[OF this] False show ?thesis
      by (simp add: Let_def nat_add_distrib)
  qed
qed

lemma rank_of_list_distinct:
  "distinct ms \<Longrightarrow> i < length ms \<Longrightarrow> rank_of_list ms (ms ! i) = int i"
proof (induction ms arbitrary: i)
  case Nil then show ?case by simp
next
  case (Cons m ms)
  show ?case
  proof (cases i)
    case 0 then show ?thesis by simp
  next
    case (Suc k)
    with Cons.prems have k: "k < length ms" and d: "distinct ms" and ne: "m \<noteq> ms ! k"
      by auto
    from Cons.IH[OF d k] Suc ne show ?thesis by (simp add: Let_def)
  qed
qed

lemma set_emplace_set: "set (set_emplace x s) = insert x (set s)"
  by (auto simp: set_emplace_def set_insort_key)

lemma set_emplace_sorted: "sorted s \<Longrightarrow> sorted (set_emplace x s)"
  by (simp add: set_emplace_def sorted_insort)

lemma set_emplace_distinct: "distinct s \<Longrightarrow> distinct (set_emplace x s)"
  by (simp add: set_emplace_def distinct_insort)

lemma filter_changes_Suc:
  "filter_changes Vc chs (Suc n) =
     (case filter_changes Vc chs n of (leave_ranks, join_indexes) \<Rightarrow>
        if rank_of Vc (chs ! n) \<noteq> - 1
        then (set_emplace (rank_of Vc (chs ! n)) leave_ranks, join_indexes)
        else (leave_ranks, join_indexes @ [n]))"
  by (simp add: filter_changes_def Let_def split: prod.splits)

lemma filter_changes_result:
  "filter_changes Vc chs n = (L, J) \<Longrightarrow>
     J = filter (\<lambda>i. chs ! i \<notin> set (View.members Vc)) [0..<n]
     \<and> sorted L \<and> distinct L
     \<and> set L = {rank_of Vc (chs ! i) |i. i < n \<and> chs ! i \<in> set (View.members Vc)}"
proof (induction n arbitrary: L J)
  case 0
  then show ?case by (simp add: filter_changes_def)
next
  case (Suc n)
  obtain L0 J0 where r: "filter_changes Vc chs n = (L0, J0)" by (cases "filter_changes Vc chs n")
  note ih = Suc.IH[OF r]
  show ?case
  proof (cases "chs ! n \<in> set (View.members Vc)")
    case True
    then have ne: "rank_of Vc (chs ! n) \<noteq> - 1" by (simp add: rank_of_def rank_of_list_none)
    with Suc.prems r have L: "L = set_emplace (rank_of Vc (chs ! n)) L0" and J: "J = J0"
      by (simp_all add: filter_changes_Suc)
    have "set L = {rank_of Vc (chs ! i) |i. i < Suc n \<and> chs ! i \<in> set (View.members Vc)}"
      using ih True by (auto simp: L set_emplace_set less_Suc_eq)
    then show ?thesis using ih True L J
      by (simp add: set_emplace_sorted set_emplace_distinct)
  next
    case False
    then have e: "rank_of Vc (chs ! n) = - 1" by (simp add: rank_of_def rank_of_list_none)
    with Suc.prems r have L: "L = L0" and J: "J = J0 @ [n]"
      by (simp_all add: filter_changes_Suc)
    have "set L = {rank_of Vc (chs ! i) |i. i < Suc n \<and> chs ! i \<in> set (View.members Vc)}"
      using ih False by (auto simp: L less_Suc_eq)
    then show ?thesis using ih False L J by simp
  qed
qed

lemma place_joiners_joined:
  "fst (fold (\<lambda>i (jd, ms, ips). (jd @ [f i], g i ms, h i ips)) xs (jd0, ms0, ips0))
     = jd0 @ map f xs"
  by (induction xs arbitrary: jd0 ms0 ips0) simp_all

lemma place_joiners_members:
  "fst (snd (fold (\<lambda>i (jd, ms, ips). (jd @ [f i], g i ms, h i ips)) xs (jd0, ms0, ips0)))
     = fold g xs ms0"
  by (induction xs arbitrary: jd0 ms0 ips0) simp_all

lemma fold_write_block:
  "base + k \<le> N \<Longrightarrow>
   fold (\<lambda>i ms. ms[base + i := g i]) [0..<k] (replicate N z)
     = replicate base z @ map g [0..<k] @ replicate (N - base - k) z"
proof (induction k)
  case 0
  then show ?case by (simp add: replicate_add[symmetric])
next
  case (Suc k)
  then have ih: "fold (\<lambda>i ms. ms[base + i := g i]) [0..<k] (replicate N z)
     = replicate base z @ map g [0..<k] @ replicate (N - base - k) z" by simp
  obtain d where d: "N - (base + k) = Suc d" "N - Suc (base + k) = d"
    using Suc.prems by (cases "N - (base + k)") simp_all
  show ?case
    by (simp add: ih list_update_append d)
qed

lemma place_joiners_result:
  assumes "place_joiners ntoa row base J N = (jd, ms1, ips1)" "base + length J = N"
  shows "jd = map (\<lambda>j. changes row ! j) J \<and> ms1 = replicate base 0 @ map (\<lambda>j. changes row ! j) J"
proof -
  let ?f = "\<lambda>i. changes row ! (J ! i)"
  have e: "map ?f [0..<length J] = map (\<lambda>j. changes row ! j) J"
  proof -
    have "map (\<lambda>j. changes row ! j) (map ((!) J) [0..<length J]) = map ?f [0..<length J]"
      unfolding map_map comp_def ..
    then show ?thesis unfolding map_nth by (rule sym)
  qed
  let ?F = "\<lambda>i (jd, ms, ips). (jd @ [?f i], ms[base + i := ?f i],
                 ips[base + i := (ntoa (joiner_ips row ! (J ! i)), joiner_gms_ports row ! (J ! i),
                        joiner_rpc_ports row ! (J ! i), joiner_sst_ports row ! (J ! i),
                        joiner_rdmc_ports row ! (J ! i))])"
  have p: "place_joiners ntoa row base J N
             = fold ?F [0..<length J] ([], replicate N 0, replicate N ([], 0, 0, 0, 0))"
    unfolding place_joiners_def Let_def by simp
  have j: "jd = map ?f [0..<length J]"
    using arg_cong[OF assms(1), of fst] unfolding p
    by (simp only: place_joiners_joined fst_conv append_Nil)
  have m: "ms1 = fold (\<lambda>i ms. ms[base + i := ?f i]) [0..<length J] (replicate N 0)"
    using arg_cong[OF assms(1), of "\<lambda>t. fst (snd t)"] unfolding p
    by (simp only: place_joiners_members fst_conv snd_conv)
  from m fold_write_block[of base "length J" N ?f 0] assms(2)
  have "ms1 = replicate base 0 @ map ?f [0..<length J]" by simp
  with j e show ?thesis by simp
qed

lemma collect_departed_result:
  "fst (collect_departed Vc L) = map (\<lambda>r. View.members Vc ! nat r) L"
proof -
  have "fst (fold (\<lambda>x (dp, nur). (dp @ [f x], g x nur)) xs (dp0, n0)) = dp0 @ map f xs"
    for f :: "int \<Rightarrow> nat" and g :: "int \<Rightarrow> int \<Rightarrow> int" and xs dp0 n0
    by (induction xs arbitrary: dp0 n0) simp_all
  then show ?thesis unfolding collect_departed_def by simp
qed

lemma copy_survivors_members:
  "(fst (fold (\<lambda>r (ms, ips, fl, nr). if P r then (ms[nr := m r], ips[nr := a r], fl[nr := b r], nr + 1)
                                       else (ms, ips, fl, nr)) xs (ms0, ips0, fl0, n0)),
    snd (snd (snd (fold (\<lambda>r (ms, ips, fl, nr). if P r then (ms[nr := m r], ips[nr := a r], fl[nr := b r], nr + 1)
                                       else (ms, ips, fl, nr)) xs (ms0, ips0, fl0, n0)))))
   = fold (\<lambda>r (ms, nr). if P r then (ms[nr := m r], nr + 1) else (ms, nr)) xs (ms0, n0)"
  by (induction xs arbitrary: ms0 ips0 fl0 n0) simp_all

lemma fold_copy_front:
  "length (filter P [0..<k]) \<le> length ms0 \<Longrightarrow>
   fold (\<lambda>r (ms, nr). if P r then (ms[nr := m r], nr + 1) else (ms, nr)) [0..<k] (ms0, 0)
     = (map m (filter P [0..<k]) @ drop (length (filter P [0..<k])) ms0,
        length (filter P [0..<k]))"
proof (induction k)
  case 0
  then show ?case by simp
next
  case (Suc k)
  let ?S = "filter P [0..<k]"
  have le: "length ?S \<le> length ms0" using Suc.prems by (simp split: if_splits)
  note ih = Suc.IH[OF le]
  show ?case
  proof (cases "P k")
    case False
    with ih show ?thesis by simp
  next
    case True
    with Suc.prems have lt: "length ?S < length ms0" by simp
    have "(map m ?S @ drop (length ?S) ms0)[length ?S := m k]
            = map m ?S @ (m k # drop (Suc (length ?S)) ms0)"
      using lt by (simp add: list_update_append Cons_nth_drop_Suc[symmetric])
    with ih True show ?thesis by simp
  qed
qed

lemma copy_survivors_result:
  assumes "copy_survivors Vc L ms0 ips0 fl0 = (ms, ips, fl, new_rank)"
    and "length (filter (\<lambda>r. int r \<notin> set L) [0..<nat (num_members Vc)]) \<le> length ms0"
  shows "ms = map (\<lambda>r. View.members Vc ! r) (filter (\<lambda>r. int r \<notin> set L) [0..<nat (num_members Vc)])
              @ drop (length (filter (\<lambda>r. int r \<notin> set L) [0..<nat (num_members Vc)])) ms0"
proof -
  let ?P = "\<lambda>r. int r \<notin> set L"
  let ?m = "\<lambda>r. View.members Vc ! r"
  let ?n = "nat (num_members Vc)"
  have "(ms, new_rank) = fold (\<lambda>r (ms, nr). if ?P r then (ms[nr := ?m r], nr + 1) else (ms, nr))
           [0..<?n] (ms0, 0)"
    using assms(1)
      copy_survivors_members[of ?P ?m "\<lambda>r. member_ips_and_ports Vc ! r" "\<lambda>r. failed Vc ! r"
        "[0..<?n]" ms0 ips0 fl0 0]
    unfolding copy_survivors_def by simp
  with fold_copy_front[OF assms(2), of ?m] show ?thesis by simp
qed

lemma map_nth_filter_upt:
  "map ((!) xs) (filter (\<lambda>i. P (xs ! i)) [0..<length xs]) = filter P xs"
proof -
  have "filter P (map ((!) xs) [0..<length xs]) = map ((!) xs) (filter (P \<circ> (!) xs) [0..<length xs])"
    by (rule filter_map)
  then show ?thesis unfolding map_nth by (simp add: comp_def)
qed

lemma take_as_map_nth: "n \<le> length xs \<Longrightarrow> map ((!) xs) [0..<n] = take n xs"
  by (rule nth_equalityI) simp_all

lemma map_nth_filter_take:
  assumes "n \<le> length xs"
  shows "map ((!) xs) (filter (\<lambda>i. P (xs ! i)) [0..<n]) = filter P (take n xs)"
proof -
  have "filter P (map ((!) xs) [0..<n]) = map ((!) xs) (filter (P \<circ> (!) xs) [0..<n])"
    by (rule filter_map)
  then show ?thesis unfolding take_as_map_nth[OF assms] by (simp add: comp_def)
qed

lemma in_set_take_iff:
  "n \<le> length xs \<Longrightarrow> x \<in> set (take n xs) \<longleftrightarrow> (\<exists>i<n. xs ! i = x)"
  by (auto simp: in_set_conv_nth)

lemma leave_ranks_member:
  assumes d: "distinct (View.members Vc)" and r: "r < length (View.members Vc)"
    and n: "n \<le> length chs"
    and L: "set L = {rank_of Vc (chs ! i) |i. i < n \<and> chs ! i \<in> set (View.members Vc)}"
  shows "int r \<in> set L \<longleftrightarrow> View.members Vc ! r \<in> set (take n chs)"
proof
  assume "int r \<in> set L"
  with L obtain i where i: "i < n" "chs ! i \<in> set (View.members Vc)" "int r = rank_of Vc (chs ! i)"
    by auto
  from i(3) have "nat (rank_of_list (View.members Vc) (chs ! i)) = r"
    by (simp add: rank_of_def)
  with rank_of_list_nth[OF i(2)] have "View.members Vc ! r = chs ! i"
    by simp
  with i(1) n show "View.members Vc ! r \<in> set (take n chs)"
    by (auto simp: in_set_take_iff)
next
  assume "View.members Vc ! r \<in> set (take n chs)"
  with n obtain i where i: "i < n" "chs ! i = View.members Vc ! r" by (auto simp: in_set_take_iff)
  have m: "chs ! i \<in> set (View.members Vc)" using i(2) r by simp
  have "rank_of Vc (chs ! i) = int r"
    using rank_of_list_distinct[OF d r] i(2) by (simp add: rank_of_def)
  with L i(1) m show "int r \<in> set L" by force
qed

lemma leave_ranks_range:
  assumes L: "set L = {rank_of Vc (chs ! i) |i. i < n \<and> chs ! i \<in> set (View.members Vc)}"
    and x: "x \<in> set L"
  shows "0 \<le> x \<and> nat x < length (View.members Vc)"
  using L x rank_of_list_nth by (auto simp: rank_of_def)

lemma leave_ranks_list:
  assumes d: "distinct (View.members Vc)" and n: "n \<le> length chs"
    and s: "sorted L" and dl: "distinct L"
    and L: "set L = {rank_of Vc (chs ! i) |i. i < n \<and> chs ! i \<in> set (View.members Vc)}"
  shows "L = map int (filter (\<lambda>r. View.members Vc ! r \<in> set (take n chs))
                        [0..<length (View.members Vc)])"
proof (rule sorted_distinct_set_unique[OF s dl])
  let ?R = "filter (\<lambda>r. View.members Vc ! r \<in> set (take n chs)) [0..<length (View.members Vc)]"
  show "sorted (map int ?R)" by (simp add: sorted_map sorted_wrt_filter)
  show "distinct (map int ?R)" by (simp add: distinct_map inj_on_def)
  show "set L = set (map int ?R)"
  proof (intro set_eqI iffI)
    fix x assume x: "x \<in> set L"
    from leave_ranks_range[OF L x] have rg: "0 \<le> x" "nat x < length (View.members Vc)" by simp_all
    from leave_ranks_member[OF d rg(2) n L] x rg(1)
    have "View.members Vc ! nat x \<in> set (take n chs)" by simp
    with rg have "nat x \<in> set ?R" by simp
    then have "int (nat x) \<in> set (map int ?R)" unfolding set_map by (rule imageI)
    with rg(1) show "x \<in> set (map int ?R)" by simp
  next
    fix x assume "x \<in> set (map int ?R)"
    then obtain r where r: "x = int r" "r < length (View.members Vc)"
      "View.members Vc ! r \<in> set (take n chs)" by auto
    with leave_ranks_member[OF d r(2) n L] show "x \<in> set L" by simp
  qed
qed

lemma make_next_view_members:
  assumes d: "distinct (View.members Vc)"
    and nm: "num_members Vc = int (length (View.members Vc))"
    and n: "n \<le> length (changes row)"
    and fc: "filter_changes Vc (changes row) n = (L, J)"
    and pj: "place_joiners ntoa row (nat (num_members Vc - int (length L))) J
               (nat (num_members Vc - int (length L) + int (length J))) = (jd, ms1, ips1)"
    and cs: "copy_survivors Vc L ms1 ips1 fl0 = (ms, ips, fl, new_rank)"
  shows "ms = filter (\<lambda>m. m \<notin> set (take n (changes row))) (View.members Vc)
              @ filter (\<lambda>c. c \<notin> set (View.members Vc)) (take n (changes row))
       \<and> jd = filter (\<lambda>c. c \<notin> set (View.members Vc)) (take n (changes row))
       \<and> fst (collect_departed Vc L)
           = filter (\<lambda>m. m \<in> set (take n (changes row))) (View.members Vc)"
proof -
  let ?ms = "View.members Vc"
  let ?ch = "changes row"
  let ?c = "take n ?ch"
  let ?len = "length ?ms"
  from filter_changes_result[OF fc]
  have J: "J = filter (\<lambda>i. ?ch ! i \<notin> set ?ms) [0..<n]"
    and s: "sorted L" and dl: "distinct L"
    and L: "set L = {rank_of Vc (?ch ! i) |i. i < n \<and> ?ch ! i \<in> set ?ms}" by simp_all
  have Leq: "L = map int (filter (\<lambda>r. ?ms ! r \<in> set ?c) [0..<?len])"
    by (rule leave_ranks_list[OF d n s dl L])
  have stay: "filter (\<lambda>r. int r \<notin> set L) [0..<?len] = filter (\<lambda>r. ?ms ! r \<notin> set ?c) [0..<?len]"
    by (rule filter_cong) (simp_all add: leave_ranks_member[OF d _ n L])
  have "length (filter (\<lambda>r. ?ms ! r \<in> set ?c) [0..<?len])
           + length (filter (\<lambda>r. \<not> ?ms ! r \<in> set ?c) [0..<?len]) = length [0..<?len]"
    by (rule sum_length_filter_compl)
  then have cnt: "length (filter (\<lambda>r. int r \<notin> set L) [0..<?len]) = ?len - length L"
    and le: "length L \<le> ?len"
    unfolding stay by (simp_all add: Leq)
  have base: "nat (num_members Vc - int (length L)) = ?len - length L"
    using nm le by simp
  have N: "nat (num_members Vc - int (length L) + int (length J)) = (?len - length L) + length J"
    using nm le by simp
  from place_joiners_result[OF pj[unfolded base N] refl]
  have jd: "jd = map (\<lambda>j. ?ch ! j) J" and ms1: "ms1 = replicate (?len - length L) 0 @ map (\<lambda>j. ?ch ! j) J"
    by simp_all
  have jdf: "map (\<lambda>j. ?ch ! j) J = filter (\<lambda>c. c \<notin> set ?ms) ?c"
    unfolding J using map_nth_filter_take[OF n, of "\<lambda>c. c \<notin> set ?ms"] by simp
  have "length (filter (\<lambda>r. int r \<notin> set L) [0..<nat (num_members Vc)]) \<le> length ms1"
    using cnt nm by (simp add: ms1)
  from copy_survivors_result[OF cs this]
  have "ms = map (\<lambda>r. ?ms ! r) (filter (\<lambda>r. int r \<notin> set L) [0..<?len])
              @ drop (?len - length L) ms1"
    using nm cnt by simp
  then have "ms = map ((!) ?ms) (filter (\<lambda>r. ?ms ! r \<notin> set ?c) [0..<?len]) @ map (\<lambda>j. ?ch ! j) J"
    unfolding stay by (simp add: ms1)
  then have a: "ms = filter (\<lambda>m. m \<notin> set ?c) ?ms @ filter (\<lambda>c. c \<notin> set ?ms) ?c"
    using map_nth_filter_upt[of ?ms "\<lambda>m. m \<notin> set ?c"] jdf by simp
  have "fst (collect_departed Vc L) = map (\<lambda>r. ?ms ! nat r) L"
    by (rule collect_departed_result)
  also have "\<dots> = map ((!) ?ms) (filter (\<lambda>r. ?ms ! r \<in> set ?c) [0..<?len])"
    by (subst Leq) (simp add: comp_def)
  also have "\<dots> = filter (\<lambda>m. m \<in> set ?c) ?ms"
    by (rule map_nth_filter_upt)
  finally show ?thesis using a jd jdf by simp
qed


subsection \<open>Copying and computing the trim\<close>

lemma copy_global_min_Suc:
  "copy_global_min dst src offset (Suc n) T =
     (let U = copy_global_min dst src offset n T
      in U[dst := (U ! dst)\<lparr>global_min :=
              (global_min (U ! dst))[offset + n := global_min (U ! src) ! (offset + n)]\<rparr>])"
  by (simp add: copy_global_min_def Let_def)

lemma copy_global_min_shape:
  assumes "dst < length T"
  shows "\<exists>G. copy_global_min dst src offset n T = T[dst := (T ! dst)\<lparr>global_min := G\<rparr>]
           \<and> length G = length (global_min (T ! dst))
           \<and> (\<forall>j<length G. G ! j = (if offset \<le> j \<and> j < offset + n
                                      then global_min (T ! src) ! j
                                      else global_min (T ! dst) ! j))"
proof (induction n)
  case 0
  have "T = T[dst := (T ! dst)\<lparr>global_min := global_min (T ! dst)\<rparr>]" by simp
  then show ?case unfolding copy_global_min_def by (intro exI[of _ "global_min (T ! dst)"]) simp
next
  case (Suc n)
  then obtain G where G: "copy_global_min dst src offset n T = T[dst := (T ! dst)\<lparr>global_min := G\<rparr>]"
    "length G = length (global_min (T ! dst))"
    "\<forall>j<length G. G ! j = (if offset \<le> j \<and> j < offset + n
                                      then global_min (T ! src) ! j
                                      else global_min (T ! dst) ! j)" by blast
  let ?U = "T[dst := (T ! dst)\<lparr>global_min := G\<rparr>]"
  let ?x = "global_min (?U ! src) ! (offset + n)"
  let ?G' = "G[offset + n := ?x]"
  have x: "offset + n < length G \<Longrightarrow> ?x = global_min (T ! src) ! (offset + n)"
    using G(3) assms by (cases "src = dst") simp_all
  have 1: "copy_global_min dst src offset (Suc n) T = T[dst := (T ! dst)\<lparr>global_min := ?G'\<rparr>]"
    using assms by (simp add: copy_global_min_Suc G(1) Let_def)
  have 2: "length ?G' = length (global_min (T ! dst))" using G(2) by simp
  have 3: "\<forall>j<length ?G'. ?G' ! j = (if offset \<le> j \<and> j < offset + Suc n
                                      then global_min (T ! src) ! j
                                      else global_min (T ! dst) ! j)"
  proof (intro allI impI)
    fix j assume j: "j < length ?G'"
    show "?G' ! j = (if offset \<le> j \<and> j < offset + Suc n
                                      then global_min (T ! src) ! j
                                      else global_min (T ! dst) ! j)"
    proof (cases "j = offset + n")
      case True
      with j x show ?thesis by simp
    next
      case False
      with j G(3) show ?thesis by (auto simp: nth_list_update)
    qed
  qed
  from 1 2 3 show ?case by blast
qed

lemma copy_global_min_entries:
  assumes "dst < length T" "offset + n \<le> length (global_min (T ! dst))" "s < n"
  shows "global_min (copy_global_min dst src offset n T ! dst) ! (offset + s)
           = global_min (T ! src) ! (offset + s)"
proof -
  from copy_global_min_shape[OF assms(1), of src offset n] obtain G where
    G: "copy_global_min dst src offset n T = T[dst := (T ! dst)\<lparr>global_min := G\<rparr>]"
    "length G = length (global_min (T ! dst))"
    "\<forall>j<length G. G ! j = (if offset \<le> j \<and> j < offset + n
                                      then global_min (T ! src) ! j
                                      else global_min (T ! dst) ! j)" by blast
  have "offset + s < length G" using assms(2,3) G(2) by simp
  with G(3) assms(3) have "G ! (offset + s) = global_min (T ! src) ! (offset + s)" by simp
  then show ?thesis using assms(1) by (simp add: G(1))
qed


lemma copy_global_min_other_fields:
  assumes "dst < length T"
  shows "length (copy_global_min dst src offset n T) = length T"
    and "global_min_ready (copy_global_min dst src offset n T ! r) = global_min_ready (T ! r)"
    and "delivered_num (copy_global_min dst src offset n T ! r) = delivered_num (T ! r)"
    and "sst_row.vid (copy_global_min dst src offset n T ! r) = sst_row.vid (T ! r)"
    and "num_received (copy_global_min dst src offset n T ! r) = num_received (T ! r)"
proof -
  from copy_global_min_shape[OF assms, of src offset n] obtain G where
    G: "copy_global_min dst src offset n T = T[dst := (T ! dst)\<lparr>global_min := G\<rparr>]" by blast
  show "length (copy_global_min dst src offset n T) = length T" by (simp add: G)
  show "global_min_ready (copy_global_min dst src offset n T ! r) = global_min_ready (T ! r)"
    "delivered_num (copy_global_min dst src offset n T ! r) = delivered_num (T ! r)"
    "sst_row.vid (copy_global_min dst src offset n T ! r) = sst_row.vid (T ! r)"
    "num_received (copy_global_min dst src offset n T ! r) = num_received (T ! r)"
    by (simp_all add: G nth_update_field)
qed

lemma fold_min_filtered:
  "fold (\<lambda>x m. if P x \<and> m > f x then f x else m) xs (m0::int)
     = Min (insert m0 (f ` {x \<in> set xs. P x}))"
proof (induction xs arbitrary: m0)
  case Nil
  then show ?case by simp
next
  case (Cons x xs)
  let ?A = "f ` {y \<in> set xs. P y}"
  have fin: "finite ?A" by simp
  show ?case
  proof (cases "P x")
    case False
    then have "{y \<in> set (x # xs). P y} = {y \<in> set xs. P y}" by auto
    with Cons[of m0] False show ?thesis by simp
  next
    case True
    then have s: "f ` {y \<in> set (x # xs). P y} = insert (f x) ?A" by auto
    show ?thesis
    proof (cases "m0 > f x")
      case True
      have "Min (insert (f x) ?A) \<le> f x" using fin by simp
      with True have le: "Min (insert (f x) ?A) \<le> m0" by linarith
      have "Min (insert m0 (insert (f x) ?A)) = min m0 (Min (insert (f x) ?A))"
        by (rule Min_insert) (use fin in auto)
      with le have "Min (insert m0 (insert (f x) ?A)) = Min (insert (f x) ?A)"
        by (simp add: min_absorb2)
      with Cons[of "f x"] \<open>P x\<close> True s show ?thesis by simp
    next
      case False
      have "Min (insert m0 ?A) \<le> m0" using fin by simp
      with False have le: "Min (insert m0 ?A) \<le> f x" by linarith
      have "Min (insert (f x) (insert m0 ?A)) = min (f x) (Min (insert m0 ?A))"
        by (rule Min_insert) (use fin in auto)
      with le have "Min (insert (f x) (insert m0 ?A)) = Min (insert m0 ?A)"
        by (simp add: min_absorb2)
      then have "Min (insert m0 (insert (f x) ?A)) = Min (insert m0 ?A)"
        by (simp add: insert_commute)
      with Cons[of m0] \<open>P x\<close> False s show ?thesis by simp
    qed
  qed
qed

lemma min_num_received_Min:
  "min_num_received Vc sst myRank shard_members col
     = Min (insert (num_received (sst ! myRank) ! col)
              {num_received (sst ! nat (rank_of Vc m)) ! col |m.
                 m \<in> set shard_members \<and> \<not> failed Vc ! nat (rank_of Vc m)})"
proof -
  have "(\<lambda>m. num_received (sst ! nat (rank_of Vc m)) ! col)
           ` {x \<in> set shard_members. \<not> failed Vc ! nat (rank_of Vc x)}
        = {num_received (sst ! nat (rank_of Vc m)) ! col |m.
                 m \<in> set shard_members \<and> \<not> failed Vc ! nat (rank_of Vc m)}" by auto
  then show ?thesis
    unfolding min_num_received_def Let_def
    using fold_min_filtered[of "\<lambda>m. \<not> failed Vc ! nat (rank_of Vc m)"
        "\<lambda>m. num_received (sst ! nat (rank_of Vc m)) ! col" shard_members
        "num_received (sst ! myRank) ! col"]
    by simp
qed

lemma min_num_received_update:
  "num_received x = num_received (T ! i) \<Longrightarrow>
   min_num_received Vc (T[i := x]) myRank shard_members col
     = min_num_received Vc T myRank shard_members col"
  unfolding min_num_received_def Let_def by (simp add: nth_update_field cong: if_cong)

lemma compute_global_min_Suc:
  "compute_global_min Vc myRank offset shard (Suc n) T =
     (let U = compute_global_min Vc myRank offset shard n T
      in U[myRank := (U ! myRank)\<lparr>global_min :=
              (global_min (U ! myRank))[offset + n :=
                  min_num_received Vc U myRank shard (offset + n)]\<rparr>])"
  by (simp add: compute_global_min_def Let_def)

lemma compute_global_min_shape:
  assumes "myRank < length T"
  shows "\<exists>G. compute_global_min Vc myRank offset shard n T = T[myRank := (T ! myRank)\<lparr>global_min := G\<rparr>]
           \<and> length G = length (global_min (T ! myRank))
           \<and> (\<forall>j<length G. G ! j = (if offset \<le> j \<and> j < offset + n
                                      then min_num_received Vc T myRank shard j
                                      else global_min (T ! myRank) ! j))"
proof (induction n)
  case 0
  have "T = T[myRank := (T ! myRank)\<lparr>global_min := global_min (T ! myRank)\<rparr>]" by simp
  then show ?case unfolding compute_global_min_def
    by (intro exI[of _ "global_min (T ! myRank)"]) simp
next
  case (Suc n)
  then obtain G where G: "compute_global_min Vc myRank offset shard n T = T[myRank := (T ! myRank)\<lparr>global_min := G\<rparr>]"
    "length G = length (global_min (T ! myRank))"
    "\<forall>j<length G. G ! j = (if offset \<le> j \<and> j < offset + n
                                      then min_num_received Vc T myRank shard j
                                      else global_min (T ! myRank) ! j)" by blast
  let ?U = "T[myRank := (T ! myRank)\<lparr>global_min := G\<rparr>]"
  have m: "min_num_received Vc ?U myRank shard (offset + n) = min_num_received Vc T myRank shard (offset + n)"
    by (rule min_num_received_update) simp
  let ?G' = "G[offset + n := min_num_received Vc T myRank shard (offset + n)]"
  have 1: "compute_global_min Vc myRank offset shard (Suc n) T = T[myRank := (T ! myRank)\<lparr>global_min := ?G'\<rparr>]"
    using assms by (simp add: compute_global_min_Suc G(1) Let_def m)
  have 2: "length ?G' = length (global_min (T ! myRank))" using G(2) by simp
  have 3: "\<forall>j<length ?G'. ?G' ! j = (if offset \<le> j \<and> j < offset + Suc n
                                      then min_num_received Vc T myRank shard j
                                      else global_min (T ! myRank) ! j)"
  proof (intro allI impI)
    fix j assume j: "j < length ?G'"
    show "?G' ! j = (if offset \<le> j \<and> j < offset + Suc n
                                      then min_num_received Vc T myRank shard j
                                      else global_min (T ! myRank) ! j)"
    proof (cases "j = offset + n")
      case True
      with j show ?thesis by simp
    next
      case False
      with j G(3) show ?thesis by (auto simp: nth_list_update)
    qed
  qed
  from 1 2 3 show ?case by blast
qed

lemma compute_global_min_entries:
  assumes "myRank < length T" "offset + n \<le> length (global_min (T ! myRank))" "s < n"
  shows "global_min (compute_global_min Vc myRank offset shard n T ! myRank) ! (offset + s)
           = min_num_received Vc T myRank shard (offset + s)"
    and "length (compute_global_min Vc myRank offset shard n T) = length T"
    and "global_min_ready (compute_global_min Vc myRank offset shard n T ! r) = global_min_ready (T ! r)"
proof -
  from compute_global_min_shape[OF assms(1), of Vc offset shard n] obtain G where
    G: "compute_global_min Vc myRank offset shard n T = T[myRank := (T ! myRank)\<lparr>global_min := G\<rparr>]"
    "length G = length (global_min (T ! myRank))"
    "\<forall>j<length G. G ! j = (if offset \<le> j \<and> j < offset + n
                                      then min_num_received Vc T myRank shard j
                                      else global_min (T ! myRank) ! j)" by blast
  have "offset + s < length G" using assms(2,3) G(2) by simp
  with G(3) assms(3) have "G ! (offset + s) = min_num_received Vc T myRank shard (offset + s)" by simp
  then show "global_min (compute_global_min Vc myRank offset shard n T ! myRank) ! (offset + s)
           = min_num_received Vc T myRank shard (offset + s)" using assms(1) by (simp add: G(1))
  show "length (compute_global_min Vc myRank offset shard n T) = length T" by (simp add: G(1))
  show "global_min_ready (compute_global_min Vc myRank offset shard n T ! r) = global_min_ready (T ! r)"
    by (simp add: G(1) nth_update_field)
qed

subsection \<open>Delivery up to a trim\<close>



lemma to_int32_range: "- (2 ^ 31) \<le> to_int32 x \<and> to_int32 x < 2 ^ 31"
proof -
  have "0 \<le> x mod 2 ^ 32" "x mod 2 ^ 32 < 2 ^ 32" by simp_all
  then show ?thesis by (auto simp: to_int32_def Let_def)
qed







lemma max_received_indices_nth:
  "s < nss \<Longrightarrow> max_received_indices_of sst r offset nss ! s = global_min (sst ! r) ! (offset + s)"
  by (simp add: max_received_indices_of_def)









subsection \<open>The subgroup maps\<close>

lemma make_shard_frame:
  assumes "make_shard prev ty idx num offset shard (cv, s, svs, mx) = Inr (cv', s', svs', mx')"
  shows "subgroup_type_order cv' = subgroup_type_order cv"
    and "View.members cv' = View.members cv"
    and "View.my_rank cv' = View.my_rank cv"
    and "subgroup_shard_views cv' = subgroup_shard_views cv"
    and "next_unassigned_rank cv' = next_unassigned_rank cv"
    and "is_adequately_provisioned cv' = is_adequately_provisioned cv"
    and "length svs' = length svs"
  using assms
  by (auto simp: make_shard_def Let_def split: option.splits if_splits)

lemma make_shards_frame:
  assumes "make_shards prev ty idx num offset shards (cv, s, svs, mx) = Inr (cv', s', svs', mx')"
  shows "subgroup_type_order cv' = subgroup_type_order cv
       \<and> View.members cv' = View.members cv
       \<and> View.my_rank cv' = View.my_rank cv
       \<and> subgroup_shard_views cv' = subgroup_shard_views cv
       \<and> next_unassigned_rank cv' = next_unassigned_rank cv
       \<and> is_adequately_provisioned cv' = is_adequately_provisioned cv
       \<and> length svs' = length svs"
  using assms
proof (induction shards arbitrary: cv s svs mx)
  case Nil
  then show ?case by simp
next
  case (Cons x xs)
  from Cons.prems obtain cv1 s1 svs1 mx1 where
    st: "make_shard prev ty idx num offset x (cv, s, svs, mx) = Inr (cv1, s1, svs1, mx1)"
    and rest: "make_shards prev ty idx num offset xs (cv1, s1, svs1, mx1) = Inr (cv', s', svs', mx')"
    by (auto split: sum.splits)
  from make_shard_frame[OF st] Cons.IH[OF rest] show ?case by simp
qed

lemma make_subgroup_frame:
  assumes "make_subgroup prev ty layout idx (cv, s, off) = Inr (cv', s', off')"
  shows "subgroup_type_order cv' = subgroup_type_order cv
       \<and> View.members cv' = View.members cv
       \<and> View.my_rank cv' = View.my_rank cv
       \<and> next_unassigned_rank cv' = next_unassigned_rank cv
       \<and> is_adequately_provisioned cv' = is_adequately_provisioned cv"
proof -
  let ?cv1 = "cv\<lparr>subgroup_ids_by_type_id :=
                (subgroup_ids_by_type_id cv)
                  (ty \<mapsto> (the (subgroup_ids_by_type_id cv ty))[idx := length (subgroup_shard_views cv)])\<rparr>"
  from assms obtain cv2 svs mx where
    sh: "make_shards prev ty idx (length (subgroup_shard_views cv)) off [0..<length (layout ! idx)]
           (?cv1, s, layout ! idx, 0) = Inr (cv2, s', svs, mx)"
    and cv': "cv' = cv2\<lparr>subgroup_shard_views := subgroup_shard_views cv2 @ [svs]\<rparr>"
    by (auto simp: make_subgroup_def Let_def split: sum.splits)
  from make_shards_frame[OF sh] show ?thesis by (simp add: cv')
qed

lemma make_subgroups_frame:
  assumes "make_subgroups prev ty layout idxs (cv, s, off) = Inr (cv', s', off')"
  shows "subgroup_type_order cv' = subgroup_type_order cv
       \<and> View.members cv' = View.members cv
       \<and> View.my_rank cv' = View.my_rank cv
       \<and> next_unassigned_rank cv' = next_unassigned_rank cv
       \<and> is_adequately_provisioned cv' = is_adequately_provisioned cv"
  using assms
proof (induction idxs arbitrary: cv s off)
  case Nil
  then show ?case by simp
next
  case (Cons x xs)
  from Cons.prems obtain cv1 s1 off1 where
    st: "make_subgroup prev ty layout x (cv, s, off) = Inr (cv1, s1, off1)"
    and rest: "make_subgroups prev ty layout xs (cv1, s1, off1) = Inr (cv', s', off')"
    by (auto split: sum.splits)
  from make_subgroup_frame[OF st] Cons.IH[OF rest] show ?case by simp
qed

lemma make_shard_no_prev:
  "\<exists>st'. make_shard None ty idx num offset shard st = Inr st'"
  by (cases st) (auto simp: make_shard_def Let_def)

lemma make_shards_no_prev:
  "\<exists>st'. make_shards None ty idx num offset shards st = Inr st'"
proof (induction shards arbitrary: st)
  case Nil
  then show ?case by (cases st) auto
next
  case (Cons x xs)
  from make_shard_no_prev[of ty idx num offset x st] obtain st1 where
    "make_shard None ty idx num offset x st = Inr st1" by blast
  with Cons[of st1] show ?case by simp
qed

lemma make_subgroup_no_prev:
  "\<exists>st'. make_subgroup None ty layout idx st = Inr st'"
proof -
  obtain cv s off where st: "st = (cv, s, off)" by (cases st) auto
  let ?cv1 = "cv\<lparr>subgroup_ids_by_type_id :=
                (subgroup_ids_by_type_id cv)
                  (ty \<mapsto> (the (subgroup_ids_by_type_id cv ty))[idx := length (subgroup_shard_views cv)])\<rparr>"
  from make_shards_no_prev[of ty idx "length (subgroup_shard_views cv)" off
      "[0..<length (layout ! idx)]" "(?cv1, s, layout ! idx, 0)"]
  obtain st1 where "make_shards None ty idx (length (subgroup_shard_views cv)) off
      [0..<length (layout ! idx)] (?cv1, s, layout ! idx, 0) = Inr st1" by blast
  then show ?thesis by (cases st1) (simp add: st make_subgroup_def Let_def)
qed

lemma make_subgroups_no_prev:
  "\<exists>st'. make_subgroups None ty layout idxs st = Inr st'"
proof (induction idxs arbitrary: st)
  case Nil
  then show ?case by (cases st) auto
next
  case (Cons x xs)
  from make_subgroup_no_prev[of ty layout x st] obtain st1 where
    "make_subgroup None ty layout x st = Inr st1" by blast
  with Cons[of st1] show ?case by simp
qed

lemma make_types_no_prev:
  "\<exists>r. make_types f None init tys st = Inr r"
proof (induction tys arbitrary: st)
  case Nil
  then show ?case by (cases st) auto
next
  case (Cons t ts)
  obtain cv s off where st: "st = (cv, s, off)" by (cases st) auto
  show ?case
  proof (cases "f (subgroup_type_order cv ! t) None cv")
    case None
    then show ?thesis by (simp add: st)
  next
    case (Some r)
    obtain layout nr where r: "r = (layout, nr)" by (cases r)
    let ?cv1 = "cv\<lparr>next_unassigned_rank := nr,
                     subgroup_ids_by_type_id :=
                       (subgroup_ids_by_type_id cv)(t \<mapsto> replicate (length layout) 0)\<rparr>"
    from make_subgroups_no_prev[of t layout "[0..<length layout]" "(?cv1, s, off)"]
    obtain st1 where "make_subgroups None t layout [0..<length layout] (?cv1, s, off) = Inr st1"
      by blast
    with Cons[of st1] Some r show ?thesis by (simp add: st Let_def)
  qed
qed

lemma register_predicates_set:
  "set (register_predicates ps)
     = set ps \<union> {Suspected_changed, Start_join, Reject_join, Change_commit_ready,
                  Leader_proposed_change, Leader_committed_changes}"
  by (auto simp: register_predicates_def)

lemma stall_next_view_made:
  "make_next_view example_ntoa provisioned_view leave_table = Inr stall_next_view"
  by (simp add: make_next_view_def provisioned_view_def leave_table_def example_view_def
      example_row_def stall_next_view_def Let_def rank_of_leader_def
      filter_changes_def place_joiners_def collect_departed_def copy_survivors_def
      make_View_def set_emplace_def rank_of_def example_ntoa_def
      upt_conv_Cons numeral_3_eq_3 numeral_2_eq_2)

















lemma make_types_type_order:
  assumes "make_types f prev init tys (cv, s, off) = Inr (n, v', s')"
  shows "subgroup_type_order v' = subgroup_type_order cv"
  using assms
proof (induction tys arbitrary: cv s off)
  case Nil
  then show ?case by auto
next
  case (Cons t ts)
  show ?case
  proof (cases "f (subgroup_type_order cv ! t) prev cv")
    case None
    with Cons.prems show ?thesis by auto
  next
    case (Some r)
    obtain layout nr where r: "r = (layout, nr)" by (cases r)
    let ?cv1 = "cv\<lparr>next_unassigned_rank := nr,
                     subgroup_ids_by_type_id :=
                       (subgroup_ids_by_type_id cv)(t \<mapsto> replicate (length layout) 0)\<rparr>"
    from Cons.prems Some r obtain cv2 s2 off2 where
      sg: "make_subgroups prev t layout [0..<length layout] (?cv1, s, off) = Inr (cv2, s2, off2)"
      and rest: "make_types f prev init ts (cv2, s2, off2) = Inr (n, v', s')"
      by (auto simp: Let_def split: sum.splits)
    from make_subgroups_frame[OF sg] Cons.IH[OF rest] show ?thesis by simp
  qed
qed

lemma make_types_append:
  assumes "make_types f prev init xs st = Inr (off, cv, s1)"
  shows "(make_types f prev init (xs @ ys) st = Inr (off, cv, s1)
          \<and> off = 0 \<and> \<not> is_adequately_provisioned cv \<and> next_unassigned_rank cv = init
          \<and> subgroup_shard_views cv = [] \<and> subgroup_ids_by_type_id cv = Map.empty
          \<and> s1 = Map.empty)
       \<or> make_types f prev init (xs @ ys) st = make_types f prev init ys (cv, s1, off)"
  using assms
proof (induction xs arbitrary: st)
  case Nil
  then show ?case by (cases st) auto
next
  case (Cons t ts)
  obtain cv0 s0 off0 where st: "st = (cv0, s0, off0)" by (cases st) auto
  show ?case
  proof (cases "f (subgroup_type_order cv0 ! t) prev cv0")
    case None
    with Cons.prems st show ?thesis by auto
  next
    case (Some r)
    obtain layout nr where r: "r = (layout, nr)" by (cases r)
    let ?cv1 = "cv0\<lparr>next_unassigned_rank := nr,
                     subgroup_ids_by_type_id :=
                       (subgroup_ids_by_type_id cv0)(t \<mapsto> replicate (length layout) 0)\<rparr>"
    from Cons.prems Some r st obtain st2 where
      sg: "make_subgroups prev t layout [0..<length layout] (?cv1, s0, off0) = Inr st2"
      and rest: "make_types f prev init ts st2 = Inr (off, cv, s1)"
      by (auto simp: Let_def split: sum.splits)
    have full: "make_types f prev init ((t # ts) @ ys) st = make_types f prev init (ts @ ys) st2"
      using Some r st sg by (simp add: Let_def)
    from Cons.IH[OF rest] full show ?thesis by simp
  qed
qed

lemma rolled_back_view:
  "\<not> is_adequately_provisioned cv \<Longrightarrow> next_unassigned_rank cv = init
   \<Longrightarrow> subgroup_shard_views cv = [] \<Longrightarrow> subgroup_ids_by_type_id cv = Map.empty
   \<Longrightarrow> cv\<lparr>is_adequately_provisioned := False, next_unassigned_rank := init,
            subgroup_shard_views := [], subgroup_ids_by_type_id := Map.empty\<rparr> = cv"
  by (cases cv) simp

lemma reached_view_made:
  "make_types rank_membership (Some provisioned_view) (next_unassigned_rank stall_next_view)
     [0..<1]
     (stall_next_view\<lparr>subgroup_shard_views := [], subgroup_ids_by_type_id := Map.empty\<rparr>,
      Map.empty, 0)
     = Inr (1, reached_view, reached_settings)"
  by (simp add: stall_next_view_def reached_view_def reached_settings_def rank_membership_def
      make_subgroup_def make_shard_def provisioned_view_def example_view_def
      example_shard_def SubView_rank_of_def num_senders_def sender_rank_of_def Let_def
      upt_conv_Cons)


subsection \<open>Joining: writes, reads and rounds\<close>

lemma socket_write_ok:
  "0 < writable s \<Longrightarrow>
   socket_write s m = (True, s\<lparr>outgoing := outgoing s @ [m], writable := writable s - 1\<rparr>)"
  by (simp add: socket_write_def)

lemma socket_read_ok:
  "incoming s = m # ms \<Longrightarrow> kind m = Some x \<Longrightarrow>
   socket_read kind s = Read_ok x (s\<lparr>incoming := ms\<rparr>)"
  by (simp add: socket_read_def)

lemma socket_read_empty:
  "incoming s = [] \<Longrightarrow> socket_read kind s = Read_failed"
  by (simp add: socket_read_def)

lemma send_ragged_trims_ok:
  assumes "2 * length trims \<le> writable c" "\<forall>e \<in> set trims. snd e \<noteq> []"
  shows "send_ragged_trims bytes_size trims c
           = Inr (c\<lparr>outgoing := outgoing c
                       @ concat (map (\<lambda>e. [Size (bytes_size (snd (hd (snd e)))),
                                             Serialized_trim (snd (hd (snd e)))]) trims),
                     writable := writable c - 2 * length trims\<rparr>)"
  using assms
proof (induction trims arbitrary: c)
  case Nil
  then show ?case by simp
next
  case (Cons e es)
  from Cons.prems(2) obtain f fs where e: "snd e = f # fs" by (cases "snd e") auto
  from Cons.prems(2) have ne: "\<forall>e \<in> set es. snd e \<noteq> []" by simp
  note ih = Cons.IH[OF _ ne]
  show ?case using Cons.prems(1) by (simp add: e socket_write_def ih)
qed

lemma send_restart_state_ok:
  assumes "saved_view cfg = Some v"
    and "3 + 2 * length (saved_ragged_trim cfg) \<le> writable c"
    and "\<forall>e \<in> set (saved_ragged_trim cfg). snd e \<noteq> []"
  shows "send_restart_state cfg c
           = Inr (c\<lparr>outgoing := outgoing c @ restart_messages cfg v,
                     writable := writable c - (3 + 2 * length (saved_ragged_trim cfg))\<rparr>)"
  using assms(2)
  by (simp add: send_restart_state_def assms(1) socket_write_def restart_messages_def
      send_ragged_trims_ok[OF _ assms(3)])

lemma send_ports_ok:
  assumes "4 \<le> writable c"
  shows "send_ports cfg c
           = c\<lparr>outgoing := outgoing c @ port_messages cfg, writable := writable c - 4\<rparr>"
  using assms by (simp add: send_ports_def socket_write_def port_messages_def)

lemma read_ragged_trims_ok:
  "incoming c = trim_messages ts @ rest \<Longrightarrow>
   read_ragged_trims (length ts) c acc
     = Inr (fold (\<lambda>e. trim_emplace (snd e)) ts acc, c\<lparr>incoming := rest\<rparr>)"
proof (induction ts arbitrary: c acc)
  case Nil
  then show ?case by (simp add: trim_messages_def)
next
  case (Cons e es)
  then have i: "incoming c = Size (fst e) # Serialized_trim (snd e) # (trim_messages es @ rest)"
    by (simp add: trim_messages_def)
  let ?c1 = "c\<lparr>incoming := Serialized_trim (snd e) # (trim_messages es @ rest)\<rparr>"
  let ?c2 = "?c1\<lparr>incoming := trim_messages es @ rest\<rparr>"
  have r1: "socket_read as_size c = Read_ok (fst e) ?c1" using i by (simp add: socket_read_ok)
  have r2: "socket_read as_trim ?c1 = Read_ok (snd e) ?c2" by (simp add: socket_read_ok)
  have "incoming ?c2 = trim_messages es @ rest" by simp
  from Cons.IH[OF this, of "trim_emplace (snd e) acc"] r1 r2 show ?case by simp
qed

lemma read_round_ok:
  assumes "incoming c = round_messages is_total_restart r @ rest"
  shows "read_round is_total_restart c trims
           = Inr (round_view r, round_params r,
                  (if is_total_restart then received_trims (round_trims r) else trims),
                  round_confirmed r, c\<lparr>incoming := rest\<rparr>)"
proof -
  let ?tail = "(if is_total_restart
                then Size (length (round_trims r)) # trim_messages (round_trims r) else [])
               @ Commit_flag (round_confirmed r) # rest"
  let ?c1 = "c\<lparr>incoming := Serialized_view (round_view r) # Size (round_params_size r)
                    # Serialized_params (round_params r) # ?tail\<rparr>"
  let ?c2 = "c\<lparr>incoming := Size (round_params_size r)
                    # Serialized_params (round_params r) # ?tail\<rparr>"
  let ?c3 = "c\<lparr>incoming := Serialized_params (round_params r) # ?tail\<rparr>"
  let ?c4 = "c\<lparr>incoming := ?tail\<rparr>"
  let ?c6 = "c\<lparr>incoming := Commit_flag (round_confirmed r) # rest\<rparr>"
  have i: "incoming c = Size (round_view_size r) # incoming ?c1"
    using assms by (simp add: round_messages_def)
  have r1: "socket_read as_size c = Read_ok (round_view_size r) ?c1"
    using socket_read_ok[OF i, of as_size] by simp
  have r2: "socket_read as_view ?c1 = Read_ok (round_view r) ?c2"
    by (simp add: socket_read_def)
  have r3: "socket_read as_size ?c2 = Read_ok (round_params_size r) ?c3"
    by (simp add: socket_read_def)
  have r4: "socket_read as_params ?c3 = Read_ok (round_params r) ?c4"
    by (simp add: socket_read_def)
  have r6: "socket_read as_flag ?c6 = Read_ok (round_confirmed r) (c\<lparr>incoming := rest\<rparr>)"
    by (simp add: socket_read_def)
  show ?thesis
  proof (cases is_total_restart)
    case False
    then have "?c4 = ?c6" by simp
    with False r1 r2 r3 r4 r6 show ?thesis by (simp add: read_round_def)
  next
    case True
    let ?c5 = "c\<lparr>incoming := trim_messages (round_trims r)
                       @ Commit_flag (round_confirmed r) # rest\<rparr>"
    have r5: "socket_read as_size ?c4 = Read_ok (length (round_trims r)) ?c5"
      using True by (simp add: socket_read_def)
    have "incoming ?c5 = trim_messages (round_trims r) @ Commit_flag (round_confirmed r) # rest"
      by simp
    from read_ragged_trims_ok[OF this, of "[]"]
    have rt: "read_ragged_trims (length (round_trims r)) ?c5 []
                = Inr (received_trims (round_trims r), ?c6)"
      by (simp add: received_trims_def)
    from True r1 r2 r3 r4 r5 rt r6 show ?thesis by (simp add: read_round_def)
  qed
qed

lemma await_view_ok:
  assumes "incoming c = concat (map (round_messages is_total_restart) (aborted @ [committed])) @ rest"
    and "\<forall>r \<in> set aborted. \<not> round_confirmed r"
    and "round_confirmed committed"
  shows "await_view is_total_restart c trims
           = Inr (round_view committed, round_params committed,
                  (if is_total_restart then received_trims (round_trims committed) else trims),
                  c\<lparr>incoming := rest\<rparr>)"
  using assms
proof (induction aborted arbitrary: c trims)
  case Nil
  then have "incoming c = round_messages is_total_restart committed @ rest" by simp
  from read_round_ok[OF this, of trims] Nil.prems(3) show ?case by simp
next
  case (Cons a as)
  let ?rest = "concat (map (round_messages is_total_restart) (as @ [committed])) @ rest"
  let ?t = "(if is_total_restart then received_trims (round_trims a) else trims)"
  from Cons.prems(1) have "incoming c = round_messages is_total_restart a @ ?rest" by simp
  from read_round_ok[OF this, of trims] Cons.prems(2)
  have step: "await_view is_total_restart c trims
                = await_view is_total_restart (c\<lparr>incoming := ?rest\<rparr>) ?t"
    by simp
  have "incoming (c\<lparr>incoming := ?rest\<rparr>) = ?rest" by simp
  from Cons.IH[OF this, of ?t] Cons.prems(2,3) step show ?case by simp
qed

lemma await_view_unconfirmed:
  assumes "incoming c = concat (map (round_messages is_total_restart) aborted)"
    and "\<forall>r \<in> set aborted. \<not> round_confirmed r"
  shows "await_view is_total_restart c trims = Inl Leader_crashed_before_view"
  using assms
proof (induction aborted arbitrary: c trims)
  case Nil
  then show ?case by (simp add: read_round_def socket_read_def)
next
  case (Cons a as)
  let ?rest = "concat (map (round_messages is_total_restart) as)"
  let ?t = "(if is_total_restart then received_trims (round_trims a) else trims)"
  from Cons.prems(1) have "incoming c = round_messages is_total_restart a @ ?rest" by simp
  from read_round_ok[OF this, of trims] Cons.prems(2)
  have step: "await_view is_total_restart c trims
                = await_view is_total_restart (c\<lparr>incoming := ?rest\<rparr>) ?t"
    by simp
  have "incoming (c\<lparr>incoming := ?rest\<rparr>) = ?rest" by simp
  from Cons.IH[OF this, of ?t] Cons.prems(2) step show ?case by simp
qed

lemma exchange_ids_once_in_use:
  assumes "0 < writable c" "incoming c = Response ID_IN_USE leader # rest"
  shows "exchange_ids_once my_id c = Exchange_failed ID_already_in_use"
  using assms by (simp add: exchange_ids_once_def socket_write_def socket_read_def)

lemma exchange_ids_once_redirect:
  assumes "0 < writable c"
    and "incoming c = Response LEADER_REDIRECT leader # Size n # Address ip # Port p # rest"
  shows "exchange_ids_once my_id c = Redirected ip p"
  using assms by (simp add: exchange_ids_once_def socket_write_def socket_read_def)

lemma exchange_ids_once_other:
  assumes "0 < writable c" "incoming c = Response code leader # rest"
    and "code \<noteq> ID_IN_USE" "code \<noteq> LEADER_REDIRECT"
  shows "exchange_ids_once my_id c
           = Exchanged code (c\<lparr>outgoing := outgoing c @ [Node_id my_id],
                                   writable := writable c - 1, incoming := rest\<rparr>)"
  using assms by (simp add: exchange_ids_once_def socket_write_def socket_read_def)

lemma exchange_ids_other:
  assumes "0 < writable c" "incoming c = Response code leader # rest"
    and "code \<noteq> ID_IN_USE" "code \<noteq> LEADER_REDIRECT"
  shows "exchange_ids connect_to my_id c
           = Some (Inr (code, c\<lparr>outgoing := outgoing c @ [Node_id my_id],
                                 writable := writable c - 1, incoming := rest\<rparr>))"
  by (subst exchange_ids.simps) (simp add: exchange_ids_once_other[OF assms])

lemma exchange_ids_in_use:
  assumes "0 < writable c" "incoming c = Response ID_IN_USE leader # rest"
  shows "exchange_ids connect_to my_id c = Some (Inl ID_already_in_use)"
  by (subst exchange_ids.simps) (simp add: exchange_ids_once_in_use[OF assms])

lemma exchange_ids_redirect:
  assumes "0 < writable c"
    and "incoming c = Response LEADER_REDIRECT leader # Size n # Address ip # Port p # rest"
  shows "exchange_ids connect_to my_id c = exchange_ids connect_to my_id (connect_to ip p)"
  by (subst exchange_ids.simps) (simp add: exchange_ids_once_redirect[OF assms])

lemma receive_configuration_ok:
  assumes w: "5 \<le> writable c"
    and i: "incoming c = Response OK leader # rest"
  shows "receive_configuration cfg my_id c
           = Some (case await_view False
                          (c\<lparr>incoming := rest, outgoing := outgoing c @ Node_id my_id # port_messages cfg,
                              writable := writable c - 5\<rparr>) [] of
                     Inl e \<Rightarrow> Inl e
                   | Inr (v, params, trims, c2) \<Rightarrow>
                       Inr (False, v\<lparr>subgroup_type_order := local_type_order cfg\<rparr>,
                            params, trims, c2))"
proof -
  let ?c1 = "c\<lparr>outgoing := outgoing c @ [Node_id my_id],
                 writable := writable c - 1, incoming := rest\<rparr>"
  have w0: "0 < writable c" using w by simp
  have e: "exchange_ids (connect cfg) my_id c = Some (Inr (OK, ?c1))"
    by (rule exchange_ids_other[OF w0 i]) simp_all
  have "4 \<le> writable ?c1" using w by simp
  from send_ports_ok[OF this, of cfg]
  have p: "send_ports cfg ?c1
             = c\<lparr>incoming := rest, outgoing := outgoing c @ Node_id my_id # port_messages cfg,
                  writable := writable c - 5\<rparr>"
    by simp
  show ?thesis
    by (simp only: receive_configuration_def e option.case sum.case prod.case Let_def
        JoinResponseCode.distinct if_False p)
qed

lemma receive_configuration_restart:
  assumes w: "8 + 2 * length (saved_ragged_trim cfg) \<le> writable c"
    and i: "incoming c = Response TOTAL_RESTART leader # rest"
    and sv: "saved_view cfg = Some v"
    and ne: "\<forall>e \<in> set (saved_ragged_trim cfg). snd e \<noteq> []"
  shows "receive_configuration cfg my_id c
           = Some (case await_view True
                          (c\<lparr>incoming := rest,
                              outgoing := outgoing c @ Node_id my_id
                                          # restart_messages cfg v @ port_messages cfg,
                              writable := writable c - (8 + 2 * length (saved_ragged_trim cfg))\<rparr>)
                          (saved_ragged_trim cfg) of
                     Inl e \<Rightarrow> Inl e
                   | Inr (v, params, trims, c2) \<Rightarrow>
                       Inr (True, v\<lparr>subgroup_type_order := local_type_order cfg\<rparr>,
                            params, trims, c2))"
proof -
  let ?c1 = "c\<lparr>outgoing := outgoing c @ [Node_id my_id],
                 writable := writable c - 1, incoming := rest\<rparr>"
  have w0: "0 < writable c" using w by simp
  have e: "exchange_ids (connect cfg) my_id c = Some (Inr (TOTAL_RESTART, ?c1))"
    by (rule exchange_ids_other[OF w0 i]) simp_all
  have "3 + 2 * length (saved_ragged_trim cfg) \<le> writable ?c1" using w by simp
  note r = send_restart_state_ok[OF sv this ne]
  let ?c2 = "?c1\<lparr>outgoing := outgoing ?c1 @ restart_messages cfg v,
                   writable := writable ?c1 - (3 + 2 * length (saved_ragged_trim cfg))\<rparr>"
  have "4 \<le> writable ?c2" using w by simp
  from send_ports_ok[OF this, of cfg]
  have p: "send_ports cfg ?c2
             = c\<lparr>incoming := rest,
                  outgoing := outgoing c @ Node_id my_id
                              # restart_messages cfg v @ port_messages cfg,
                  writable := writable c - (8 + 2 * length (saved_ragged_trim cfg))\<rparr>"
    using w by simp
  show ?thesis
    by (simp only: receive_configuration_def e option.case sum.case prod.case Let_def
        simp_thms if_True r p)
qed


subsection \<open>The commit step of the leader\<close>

text \<open>
  Claim C4. At the leader, the predicate \<open>change_commit_ready\<close> holds exactly when the
  minimum of \<open>num_acked\<close> over the members not marked failed exceeds the leader's
  \<open>num_committed\<close>; \<open>leader_commit_change\<close> sets the leader's \<open>num_committed\<close> to
  that minimum, so that afterwards a change index \<open>k\<close> is at most \<open>num_committed\<close>
  exactly when every member not marked failed has acknowledged at least \<open>k\<close>. The
  leader is the lowest-ranked member not marked failed, so its own row is one of them.
\<close>

theorem leader_commit_change_minimum:
  assumes "i_am_leader (curr_view vm)"
    and "0 \<le> View.my_rank (curr_view vm)"
    and "local_index vm < length (gmsSST vm)"
  shows "(change_commit_ready vm \<longleftrightarrow>
            num_committed (gmsSST vm ! local_index vm)
              < Min {num_acked (gmsSST vm ! n) |n.
                      n < length (failed (curr_view vm)) \<and> \<not> failed (curr_view vm) ! n})
       \<and> num_committed (gmsSST (leader_commit_change vm) ! local_index vm)
            = Min {num_acked (gmsSST vm ! n) |n.
                    n < length (failed (curr_view vm)) \<and> \<not> failed (curr_view vm) ! n}
       \<and> (\<forall>k. k \<le> num_committed (gmsSST (leader_commit_change vm) ! local_index vm)
              \<longleftrightarrow> (\<forall>n<length (failed (curr_view vm)).
                      \<not> failed (curr_view vm) ! n \<longrightarrow> k \<le> num_acked (gmsSST vm ! n)))"
proof -
  let ?fl = "failed (curr_view vm)"
  let ?me = "local_index vm"
  let ?S = "{num_acked (gmsSST vm ! n) |n. n < length ?fl \<and> \<not> ?fl ! n}"
  from assms(1) have "first_not_failed ?fl = View.my_rank (curr_view vm)"
    by (simp add: i_am_leader_def rank_of_leader_def)
  from first_not_failed_range[OF this assms(2)]
  have me: "?me < length ?fl" "\<not> ?fl ! ?me" by (simp_all add: local_index_def)
  have eq: "min_acked (gmsSST vm) ?me ?fl = Min ?S"
    by (rule min_acked_is_Min[OF me])
  have fin: "finite ?S" by simp
  have ne: "?S \<noteq> {}" using me by blast
  have c1: "change_commit_ready vm \<longleftrightarrow> num_committed (gmsSST vm ! ?me) < Min ?S"
    using assms(1) eq by (simp add: change_commit_ready_def)
  have c2: "num_committed (gmsSST (leader_commit_change vm) ! ?me) = Min ?S"
    using assms(3) eq by (simp add: leader_commit_change_def)
  have c3: "k \<le> Min ?S \<longleftrightarrow> (\<forall>n<length ?fl. \<not> ?fl ! n \<longrightarrow> k \<le> num_acked (gmsSST vm ! n))" for k
    using fin ne by (auto simp: Min_ge_iff)
  show ?thesis using c1 c2 c3 by simp
qed

theorem leader_commit_change_minimum_witness:
  "i_am_leader (curr_view commit_example)
   \<and> 0 \<le> View.my_rank (curr_view commit_example)
   \<and> local_index commit_example < length (gmsSST commit_example)
   \<and> change_commit_ready commit_example
   \<and> num_committed (gmsSST (leader_commit_change commit_example) ! 0) = 2
   \<and> Min {num_acked (gmsSST commit_example ! n) |n.
            n < length (failed (curr_view commit_example)) \<and> \<not> failed (curr_view commit_example) ! n} = 2"
proof -
  have a: "i_am_leader (curr_view commit_example)"
    by (simp add: commit_example_def example_vm_def example_view_def i_am_leader_def rank_of_leader_def)
  have b: "0 \<le> View.my_rank (curr_view commit_example)"
    by (simp add: commit_example_def example_vm_def example_view_def)
  have c: "local_index commit_example < length (gmsSST commit_example)"
    by (simp add: commit_example_def example_vm_def example_view_def local_index_def)
  have i: "local_index commit_example = 0"
    by (simp add: commit_example_def example_vm_def example_view_def local_index_def)
  have m: "min_acked (gmsSST commit_example) 0 (failed (curr_view commit_example)) = 2"
    by (simp add: commit_example_def example_vm_def example_view_def example_row_def
        min_acked_def upt_small)
  have r: "change_commit_ready commit_example"
    using a m i by (simp add: change_commit_ready_def commit_example_def example_vm_def example_row_def)
  have n: "num_committed (gmsSST (leader_commit_change commit_example) ! 0) = 2"
    using m i c by (simp add: leader_commit_change_def)
  from leader_commit_change_minimum[OF a b c] n i
  show ?thesis using a b c r by simp
qed


subsection \<open>The order of the change counters\<close>





subsection \<open>The partition exception\<close>








subsection \<open>A join at capacity\<close>

text \<open>
  Claim C7. The claim says that a join arriving while \<open>num_changes - num_committed\<close>
  equals the size of the change vector is held back until room frees. In the source
  \<open>receive_join\<close> throws the exception "Too many changes to allow a Join right now" in
  that state, under a comment saying that it should block the client instead. The
  theorem evaluates \<open>receive_join\<close> at such a state.
\<close>

theorem receive_join_at_capacity_throws:
  "num_changes (gmsSST full_example ! local_index full_example)
     - num_committed (gmsSST full_example ! local_index full_example)
     = int (length (changes (gmsSST full_example ! local_index full_example)))
   \<and> receive_join join_example full_example = Inl Too_many_changes"
  by (simp add: receive_join_def full_example_def join_example_def example_vm_def
      example_view_def example_row_def local_index_def Let_def)


subsection \<open>The view made from the committed changes\<close>

text \<open>
  Claim C6. Let the committed changes be the first \<open>num_committed - num_installed\<close>
  entries (counters of the leader's row) of the local row's change vector, in a view with
  distinct members. If the local node is among them, \<open>make_next_view\<close> throws.
  Otherwise it returns a view whose \<open>vid\<close> is the old one plus one, whose members are
  the old members that are not committed changes, in their old order, followed by the
  committed changes that are not old members, in the order of the change vector; its
  \<open>joined\<close> list is those joiners and its \<open>departed\<close> list the old members that
  are committed changes, in rank order.
\<close>

theorem make_next_view_applies_committed_changes:
  assumes d: "distinct (View.members Vc)"
    and nm: "num_members Vc = int (length (View.members Vc))"
    and me: "0 \<le> View.my_rank Vc" "nat (View.my_rank Vc) < length (View.members Vc)"
    and cc: "committed_count = num_committed (sst ! nat (rank_of_leader Vc))
                                - num_installed (sst ! nat (rank_of_leader Vc))"
    and n: "nat committed_count \<le> length (changes (sst ! nat (View.my_rank Vc)))"
    and c: "committed = take (nat committed_count) (changes (sst ! nat (View.my_rank Vc)))"
  shows "(View.members Vc ! nat (View.my_rank Vc) \<in> set committed
            \<longrightarrow> make_next_view ntoa Vc sst = Inl Reported_failed)
       \<and> (View.members Vc ! nat (View.my_rank Vc) \<notin> set committed
            \<longrightarrow> (\<exists>v'. make_next_view ntoa Vc sst = Inr v'
                  \<and> View.vid v' = View.vid Vc + 1
                  \<and> View.members v' = filter (\<lambda>m. m \<notin> set committed) (View.members Vc)
                                        @ filter (\<lambda>c. c \<notin> set (View.members Vc)) committed
                  \<and> View.joined v' = filter (\<lambda>c. c \<notin> set (View.members Vc)) committed
                  \<and> View.departed v' = filter (\<lambda>m. m \<in> set committed) (View.members Vc)
                  \<and> num_members v' = int (length (View.members v'))
                  \<and> View.my_rank v'
                      = rank_of_list (View.members v') (View.members Vc ! nat (View.my_rank Vc))
                  \<and> 0 \<le> View.my_rank v'))"
proof -
  let ?row = "sst ! nat (View.my_rank Vc)"
  let ?n = "nat committed_count"
  let ?me = "View.members Vc ! nat (View.my_rank Vc)"
  obtain L J where fc: "filter_changes Vc (changes ?row) ?n = (L, J)"
    by (cases "filter_changes Vc (changes ?row) ?n")
  let ?base = "nat (num_members Vc - int (length L))"
  let ?N = "nat (num_members Vc - int (length L) + int (length J))"
  obtain jd ms1 ips1 where pj: "place_joiners ntoa ?row ?base J ?N = (jd, ms1, ips1)"
    by (cases "place_joiners ntoa ?row ?base J ?N")
  obtain dp nur where cd: "collect_departed Vc L = (dp, nur)"
    by (cases "collect_departed Vc L")
  obtain ms ips fl nr where cs: "copy_survivors Vc L ms1 ips1 (replicate ?N False) = (ms, ips, fl, nr)"
    by (cases "copy_survivors Vc L ms1 ips1 (replicate ?N False)")
  from make_next_view_members[OF d nm n fc pj cs] cd c
  have ms: "ms = filter (\<lambda>m. m \<notin> set committed) (View.members Vc)
                 @ filter (\<lambda>c. c \<notin> set (View.members Vc)) committed"
    and jd: "jd = filter (\<lambda>c. c \<notin> set (View.members Vc)) committed"
    and dp: "dp = filter (\<lambda>m. m \<in> set committed) (View.members Vc)"
    by simp_all
  have mem: "?me \<in> set (View.members Vc)" using me(2) by simp
  have unf: "make_next_view ntoa Vc sst =
      (if rank_of_list ms ?me = - 1 then Inl Reported_failed
       else Inr ((make_View (View.vid Vc + 1) ms ips fl jd dp (rank_of_list ms ?me) nur
                      (subgroup_type_order Vc))\<lparr>i_know_i_am_leader := i_know_i_am_leader Vc\<rparr>))"
    unfolding make_next_view_def Let_def cc[symmetric] fc prod.case pj cd cs by simp
  have in_ms: "?me \<in> set ms \<longleftrightarrow> ?me \<notin> set committed" using mem by (auto simp: ms)
  show ?thesis
  proof (intro conjI impI)
    assume "?me \<in> set committed"
    with in_ms have "rank_of_list ms ?me = - 1" by (simp add: rank_of_list_none)
    then show "make_next_view ntoa Vc sst = Inl Reported_failed" by (simp add: unf)
  next
    assume "?me \<notin> set committed"
    with in_ms have i: "?me \<in> set ms" by simp
    then have ne: "rank_of_list ms ?me \<noteq> - 1" by (simp add: rank_of_list_none)
    have ge: "0 \<le> rank_of_list ms ?me" using rank_of_list_nth[OF i] by simp
    show "\<exists>v'. make_next_view ntoa Vc sst = Inr v'
                  \<and> View.vid v' = View.vid Vc + 1
                  \<and> View.members v' = filter (\<lambda>m. m \<notin> set committed) (View.members Vc)
                                        @ filter (\<lambda>c. c \<notin> set (View.members Vc)) committed
                  \<and> View.joined v' = filter (\<lambda>c. c \<notin> set (View.members Vc)) committed
                  \<and> View.departed v' = filter (\<lambda>m. m \<in> set committed) (View.members Vc)
                  \<and> num_members v' = int (length (View.members v'))
                  \<and> View.my_rank v'
                      = rank_of_list (View.members v') (View.members Vc ! nat (View.my_rank Vc))
                  \<and> 0 \<le> View.my_rank v'"
      using ne ge unfolding unf by (simp add: make_View_def) (simp add: ms jd dp)
  qed
qed

lemma next_view_example_committed:
  "take 2 (changes (next_view_table ! 0)) = [12, 13]"
  "take 2 (changes (next_view_table ! 2)) = [12, 13]"
  "num_committed (next_view_table ! 0) - num_installed (next_view_table ! 0) = 2"
  "length (changes (next_view_table ! 0)) = 4"
  "length (changes (next_view_table ! 2)) = 4"
  by (simp_all add: next_view_table_def example_row_def)

lemma example_view_facts:
  "View.members (example_view me fl nf) = [10, 11, 12]"
  "num_members (example_view me fl nf) = 3"
  "View.my_rank (example_view me fl nf) = me"
  "View.vid (example_view me fl nf) = 0"
  "failed (example_view me fl nf) = fl"
  by (simp_all add: example_view_def)

theorem make_next_view_applies_committed_changes_witness:
  "(\<exists>v'. make_next_view example_ntoa (example_view 0 [False, False, True] 1) next_view_table = Inr v'
        \<and> View.vid v' = 1 \<and> View.members v' = [10, 11, 13]
        \<and> View.joined v' = [13] \<and> View.departed v' = [12])
   \<and> make_next_view example_ntoa (example_view 2 [False, False, True] 1) next_view_table
       = Inl Reported_failed"
proof -
  let ?V0 = "example_view 0 [False, False, True] 1"
  let ?V2 = "example_view 2 [False, False, True] 1"
  have l: "rank_of_leader ?V0 = 0" "rank_of_leader ?V2 = 0"
    by (simp_all add: rank_of_leader_def example_view_facts)
  have h0: "distinct (View.members ?V0)" "num_members ?V0 = int (length (View.members ?V0))"
    "0 \<le> View.my_rank ?V0" "nat (View.my_rank ?V0) < length (View.members ?V0)"
    "(2::int) = num_committed (next_view_table ! nat (rank_of_leader ?V0))
                 - num_installed (next_view_table ! nat (rank_of_leader ?V0))"
    "nat 2 \<le> length (changes (next_view_table ! nat (View.my_rank ?V0)))"
    "[12, 13] = take (nat 2) (changes (next_view_table ! nat (View.my_rank ?V0)))"
    by (simp_all add: example_view_facts l next_view_example_committed)
  have h2: "distinct (View.members ?V2)" "num_members ?V2 = int (length (View.members ?V2))"
    "0 \<le> View.my_rank ?V2" "nat (View.my_rank ?V2) < length (View.members ?V2)"
    "(2::int) = num_committed (next_view_table ! nat (rank_of_leader ?V2))
                 - num_installed (next_view_table ! nat (rank_of_leader ?V2))"
    "nat 2 \<le> length (changes (next_view_table ! nat (View.my_rank ?V2)))"
    "[12, 13] = take (nat 2) (changes (next_view_table ! nat (View.my_rank ?V2)))"
    by (simp_all add: example_view_facts l next_view_example_committed)
  have m0: "View.members ?V0 ! nat (View.my_rank ?V0) \<notin> set [12, 13]"
    and m2: "View.members ?V2 ! nat (View.my_rank ?V2) \<in> set [12, 13]"
    by (simp_all add: example_view_facts)
  from make_next_view_applies_committed_changes[OF h0, of example_ntoa] m0
  obtain v' where v: "make_next_view example_ntoa ?V0 next_view_table = Inr v'"
    "View.vid v' = View.vid ?V0 + 1"
    "View.members v' = filter (\<lambda>m. m \<notin> set [12, 13]) (View.members ?V0)
                        @ filter (\<lambda>c. c \<notin> set (View.members ?V0)) [12, 13]"
    "View.joined v' = filter (\<lambda>c. c \<notin> set (View.members ?V0)) [12, 13]"
    "View.departed v' = filter (\<lambda>m. m \<in> set [12, 13]) (View.members ?V0)"
    by blast
  have a: "\<exists>v'. make_next_view example_ntoa ?V0 next_view_table = Inr v'
        \<and> View.vid v' = 1 \<and> View.members v' = [10, 11, 13]
        \<and> View.joined v' = [13] \<and> View.departed v' = [12]"
    using v by (simp add: example_view_facts)
  have b: "make_next_view example_ntoa ?V2 next_view_table = Inl Reported_failed"
    using make_next_view_applies_committed_changes[OF h2, of example_ntoa] m2 by blast
  show ?thesis using a b by simp
qed


subsection \<open>The trim decided by a shard leader\<close>

text \<open>
  Claim C3, as amended. The leader takes the first shard member, in the order of the
  shard's member list and whether it is marked failed or not, whose row has the ready
  flag of the subgroup set, and copies that row's \<open>global_min\<close> entries for the
  shard's sender columns into its own row. Only if no shard member has the flag set
  does it compute each entry as the minimum of \<open>num_received\<close> over its own row and
  the rows of the shard members not marked failed. In both cases it then sets its own
  ready flag. The counterexample below shows that the restriction of the search to
  members that are not failed, which the claim states, is not what the code does: a
  trim already decided by a member that has failed since is inherited.
\<close>

theorem leader_global_min_decision:
  assumes me: "local_index vm < length (gmsSST vm)"
    and cols: "offset + num_shard_senders
                 \<le> length (global_min (gmsSST vm ! local_index vm))"
    and g: "subgroup_num < length (global_min_ready (gmsSST vm ! local_index vm))"
    and s: "s < num_shard_senders"
    and vm': "vm' = leader_global_min subgroup_num offset shard_members
                      num_shard_senders vm"
  shows "(\<forall>node_id.
            find (\<lambda>node_id. global_min_ready (gmsSST vm ! nat (rank_of (curr_view vm) node_id)) ! subgroup_num)
              shard_members = Some node_id
            \<longrightarrow> global_min (gmsSST vm' ! local_index vm) ! (offset + s)
                  = global_min (gmsSST vm ! nat (rank_of (curr_view vm) node_id)) ! (offset + s))
       \<and> (find (\<lambda>node_id. global_min_ready (gmsSST vm ! nat (rank_of (curr_view vm) node_id)) ! subgroup_num)
              shard_members = None
            \<longrightarrow> global_min (gmsSST vm' ! local_index vm) ! (offset + s)
                  = Min (insert (num_received (gmsSST vm ! local_index vm) ! (offset + s))
                           {num_received (gmsSST vm ! nat (rank_of (curr_view vm) m)) ! (offset + s) |m.
                              m \<in> set shard_members
                              \<and> \<not> failed (curr_view vm) ! nat (rank_of (curr_view vm) m)}))
       \<and> global_min_ready (gmsSST vm' ! local_index vm) ! subgroup_num"
proof (intro conjI allI impI)
  fix node_id
  assume f: "find (\<lambda>node_id. global_min_ready (gmsSST vm ! nat (rank_of (curr_view vm) node_id)) ! subgroup_num)
              shard_members = Some node_id"
  have len: "length (copy_global_min (local_index vm) (nat (rank_of (curr_view vm) node_id))
                 offset num_shard_senders (gmsSST vm)) = length (gmsSST vm)"
    by (rule copy_global_min_other_fields[OF me])
  show "global_min (gmsSST vm' ! local_index vm) ! (offset + s)
          = global_min (gmsSST vm ! nat (rank_of (curr_view vm) node_id)) ! (offset + s)"
    unfolding vm' leader_global_min_def Let_def f
    using me len copy_global_min_entries[OF me cols s] by simp
next
  assume f: "find (\<lambda>node_id. global_min_ready (gmsSST vm ! nat (rank_of (curr_view vm) node_id)) ! subgroup_num)
              shard_members = None"
  have len: "length (compute_global_min (curr_view vm) (local_index vm) offset
                 shard_members num_shard_senders (gmsSST vm)) = length (gmsSST vm)"
    by (rule compute_global_min_entries[OF me cols s])
  show "global_min (gmsSST vm' ! local_index vm) ! (offset + s)
          = Min (insert (num_received (gmsSST vm ! local_index vm) ! (offset + s))
                   {num_received (gmsSST vm ! nat (rank_of (curr_view vm) m)) ! (offset + s) |m.
                      m \<in> set shard_members
                      \<and> \<not> failed (curr_view vm) ! nat (rank_of (curr_view vm) m)})"
    unfolding vm' leader_global_min_def Let_def f
    using me len compute_global_min_entries(1)[OF me cols s] 
    by (simp add: min_num_received_Min)
next
  let ?sst1 = "case find (\<lambda>node_id. global_min_ready (gmsSST vm ! nat (rank_of (curr_view vm) node_id)) ! subgroup_num)
                         shard_members of
                    Some node_id \<Rightarrow>
                      copy_global_min (local_index vm) (nat (rank_of (curr_view vm) node_id)) offset
                        num_shard_senders (gmsSST vm)
                  | None \<Rightarrow>
                      compute_global_min (curr_view vm) (local_index vm) offset shard_members
                        num_shard_senders (gmsSST vm)"
  have len: "length ?sst1 = length (gmsSST vm)"
    and rdy: "global_min_ready (?sst1 ! local_index vm) = global_min_ready (gmsSST vm ! local_index vm)"
    using copy_global_min_other_fields(1,2)[OF me] compute_global_min_entries(2,3)[OF me cols s]
    by (auto split: option.splits)
  show "global_min_ready (gmsSST vm' ! local_index vm) ! subgroup_num"
    unfolding vm' leader_global_min_def Let_def
    using me len rdy g by simp
qed

lemma ragged_example_facts:
  "local_index ragged_example = 1"
  "length (gmsSST ragged_example) = 3"
  "failed (curr_view ragged_example) = [True, False, False]"
  "rank_of (curr_view ragged_example) 10 = 0"
  "rank_of (curr_view ragged_example) 11 = 1"
  "rank_of (curr_view ragged_example) 12 = 2"
  "gmsSST ragged_example ! 0 = ragged_row 5 True 5 5"
  "gmsSST ragged_example ! 1 = ragged_row 0 False 7 5"
  "gmsSST ragged_example ! Suc 0 = ragged_row 0 False 7 5"
  "gmsSST ragged_example ! 2 = ragged_row 0 False 6 5"
  by (simp_all add: ragged_example_def example_vm_def example_view_def local_index_def rank_of_def)

lemma ragged_row_fields:
  "global_min (ragged_row gm rd nr dn) = [gm]"
  "global_min_ready (ragged_row gm rd nr dn) = [rd]"
  "num_received (ragged_row gm rd nr dn) = [nr]"
  "delivered_num (ragged_row gm rd nr dn) = [dn]"
  by (simp_all add: ragged_row_def)

theorem leader_global_min_decision_witness:
  "local_index ragged_example < length (gmsSST ragged_example)
   \<and> 0 + 1 \<le> length (global_min (gmsSST ragged_example ! local_index ragged_example))
   \<and> 0 < length (global_min_ready (gmsSST ragged_example ! local_index ragged_example))
   \<and> find (\<lambda>node_id. global_min_ready (gmsSST ragged_example
                ! nat (rank_of (curr_view ragged_example) node_id)) ! 0) [10, 11, 12] = Some 10
   \<and> global_min (gmsSST (leader_global_min 0 0 [10, 11, 12] 1 ragged_example) ! 1) ! 0 = 5
   \<and> global_min_ready (gmsSST (leader_global_min 0 0 [10, 11, 12] 1 ragged_example) ! 1) ! 0"
proof -
  have h: "local_index ragged_example < length (gmsSST ragged_example)"
    "0 + 1 \<le> length (global_min (gmsSST ragged_example ! local_index ragged_example))"
    "0 < length (global_min_ready (gmsSST ragged_example ! local_index ragged_example))"
    "(0::nat) < 1"
    by (simp_all add: ragged_example_facts ragged_row_fields)
  have f: "find (\<lambda>node_id. global_min_ready (gmsSST ragged_example
                ! nat (rank_of (curr_view ragged_example) node_id)) ! 0) [10, 11, 12] = Some 10"
    by (simp add: ragged_example_facts ragged_row_fields)
  from leader_global_min_decision[OF h refl, where shard_members = "[10, 11, 12]"] f
  show ?thesis using h by (simp add: ragged_example_facts ragged_row_fields)
qed

theorem leader_inherits_trim_of_failed_member_counterexample:
  "\<not> list_ex (\<lambda>node_id. \<not> failed (curr_view ragged_example) ! nat (rank_of (curr_view ragged_example) node_id)
                       \<and> global_min_ready (gmsSST ragged_example
                            ! nat (rank_of (curr_view ragged_example) node_id)) ! 0) [10, 11, 12]
   \<and> claimed_global_min (curr_view ragged_example) (gmsSST ragged_example) 0 [10, 11, 12] 0 = 6
   \<and> global_min (gmsSST (leader_global_min 0 0 [10, 11, 12] 1 ragged_example) ! 1) ! 0 = 5"
proof -
  have a: "\<not> list_ex (\<lambda>node_id. \<not> failed (curr_view ragged_example) ! nat (rank_of (curr_view ragged_example) node_id)
                       \<and> global_min_ready (gmsSST ragged_example
                            ! nat (rank_of (curr_view ragged_example) node_id)) ! 0) [10, 11, 12]"
    by (simp add: ragged_example_facts ragged_row_fields)
  have b: "claimed_global_min (curr_view ragged_example) (gmsSST ragged_example) 0 [10, 11, 12] 0 = 6"
    by (simp add: claimed_global_min_def ragged_example_facts ragged_row_fields)
  have c: "global_min (gmsSST (leader_global_min 0 0 [10, 11, 12] 1 ragged_example) ! 1) ! 0 = 5"
    by (simp add: leader_global_min_def Let_def ragged_example_facts ragged_row_fields
        copy_global_min_def)
  show ?thesis using a b c by simp
qed


subsection \<open>Every member of a shard ends the view with the leader's trim\<close>













subsection \<open>An inadequately provisioned next view\<close>

text \<open>
  Claim C8. Let the loop of \<open>make_subgroup_maps\<close> over the subgroup types before the
  type \<open>ty\<close> leave the view \<open>cv\<close>, and let the membership function, called for
  \<open>ty\<close> on \<open>cv\<close>, throw the provisioning exception. Then \<open>make_subgroup_maps\<close>
  returns 0 and an empty settings map, and the view it leaves is \<open>cv\<close> marked not
  adequately provisioned, with \<open>next_unassigned_rank\<close> at the value it had before the
  call and with empty \<open>subgroup_shard_views\<close> and \<open>subgroup_ids_by_type_id\<close>, whatever
  the earlier types have assigned. A call of \<open>terminate_epoch\<close> that makes this view
  then ends waiting for joins: the current view and the table are as before, the next
  view is stored as not adequately provisioned, a predicate that waits for the leader's
  \<open>num_committed\<close> to pass its present value has been registered, and on the first
  call the predicates of the steady state have been registered again, except the one
  that starts the view change.
\<close>

theorem provisioning_exception_rolls_back_and_stalls:
  assumes ty: "ty < length (subgroup_type_order v)"
    and reached: "make_types membership_function prev (next_unassigned_rank v) [0..<ty]
                    (v\<lparr>subgroup_shard_views := [], subgroup_ids_by_type_id := Map.empty\<rparr>, s, 0)
                    = Inr (offset, cv, settings)"
    and throws: "membership_function (subgroup_type_order v ! ty) prev cv = None"
    and rolled_back: "v' = cv\<lparr>is_adequately_provisioned := False,
                                next_unassigned_rank := next_unassigned_rank v,
                                subgroup_shard_views := [],
                                subgroup_ids_by_type_id := Map.empty\<rparr>"
  shows "make_subgroup_maps membership_function prev v s = Inr (0, v', Map.empty)
       \<and> (s = Map.empty \<and> prev = Some (curr_view vm)
            \<and> make_next_view inet_ntoa (curr_view vm) (gmsSST vm) = Inr v
          \<longrightarrow> (\<exists>vm'. terminate_epoch membership_function inet_ntoa vm
                         = Inr (vm', Map.empty, Waiting_for_joins)
                \<and> curr_view vm' = curr_view vm \<and> gmsSST vm' = gmsSST vm
                \<and> next_view vm' = Some v'
                \<and> Leader_committed_beyond
                     (num_committed (gmsSST vm ! nat (rank_of_leader (curr_view vm))))
                     \<in> set (predicates vm')
                \<and> set (predicates vm) - {Leader_committed_changes} \<subseteq> set (predicates vm')
                \<and> (next_view vm = None
                     \<longrightarrow> {Suspected_changed, Start_join, Reject_join, Change_commit_ready,
                           Leader_proposed_change} \<subseteq> set (predicates vm')
                         \<and> Leader_committed_changes \<notin> set (predicates vm'))))"
proof -
  let ?cv0 = "v\<lparr>subgroup_shard_views := [], subgroup_ids_by_type_id := Map.empty\<rparr>"
  let ?init = "next_unassigned_rank v"
  let ?n = "length (subgroup_type_order v)"
  have tys: "[0..<?n] = [0..<ty] @ (ty # [Suc ty..<?n])"
    using ty by (metis le_add1 less_imp_add_positive upt_add_eq_append upt_conv_Cons
        add.left_neutral)
  have order: "subgroup_type_order cv = subgroup_type_order v"
    using make_types_type_order[OF reached] by simp
  have here: "make_types membership_function prev ?init (ty # [Suc ty..<?n]) (cv, settings, offset)
                = Inr (0, v', Map.empty)"
    using throws order by (simp add: rolled_back)
  from make_types_append[OF reached, of "ty # [Suc ty..<?n]"]
  have "make_types membership_function prev ?init [0..<?n] (?cv0, s, 0) = Inr (0, v', Map.empty)"
  proof
    assume a: "make_types membership_function prev ?init ([0..<ty] @ ty # [Suc ty..<?n]) (?cv0, s, 0)
                 = Inr (offset, cv, settings)
          \<and> offset = 0 \<and> \<not> is_adequately_provisioned cv \<and> next_unassigned_rank cv = ?init
          \<and> subgroup_shard_views cv = [] \<and> subgroup_ids_by_type_id cv = Map.empty
          \<and> settings = Map.empty"
    then have "v' = cv" unfolding rolled_back by (simp add: rolled_back_view)
    with a show ?thesis by (simp add: tys)
  next
    assume "make_types membership_function prev ?init ([0..<ty] @ ty # [Suc ty..<?n]) (?cv0, s, 0)
              = make_types membership_function prev ?init (ty # [Suc ty..<?n]) (cv, settings, offset)"
    with here show ?thesis by (simp only: tys)
  qed
  then have maps: "make_subgroup_maps membership_function prev v s = Inr (0, v', Map.empty)"
    by (simp add: make_subgroup_maps_def)
  have na: "\<not> is_adequately_provisioned v'" by (simp add: rolled_back)
  have epoch: "\<exists>vm'. terminate_epoch membership_function inet_ntoa vm
                         = Inr (vm', Map.empty, Waiting_for_joins)
                \<and> curr_view vm' = curr_view vm \<and> gmsSST vm' = gmsSST vm
                \<and> next_view vm' = Some v'
                \<and> Leader_committed_beyond
                     (num_committed (gmsSST vm ! nat (rank_of_leader (curr_view vm))))
                     \<in> set (predicates vm')
                \<and> set (predicates vm) - {Leader_committed_changes} \<subseteq> set (predicates vm')
                \<and> (next_view vm = None
                     \<longrightarrow> {Suspected_changed, Start_join, Reject_join, Change_commit_ready,
                           Leader_proposed_change} \<subseteq> set (predicates vm')
                         \<and> Leader_committed_changes \<notin> set (predicates vm'))"
    if s: "s = Map.empty" and p: "prev = Some (curr_view vm)"
      and nv: "make_next_view inet_ntoa (curr_view vm) (gmsSST vm) = Inr v"
  proof -
    let ?ps = "(if next_view vm = None
                then remove_predicate Leader_committed_changes
                       (register_predicates (predicates vm))
                else predicates vm)"
    let ?w = "Leader_committed_beyond
                (num_committed (gmsSST vm ! nat (rank_of_leader (curr_view vm))))"
    let ?vm' = "vm\<lparr>next_view := Some v', predicates := ?ps @ [?w]\<rparr>"
    have te: "terminate_epoch membership_function inet_ntoa vm
                = Inr (?vm', Map.empty, Waiting_for_joins)"
      unfolding terminate_epoch_def Let_def nv using maps[unfolded s p] na by simp
    have keep: "set (predicates vm) - {Leader_committed_changes} \<subseteq> set ?ps"
      by (auto simp: remove_predicate_def register_predicates_set)
    have first: "next_view vm = None
                   \<longrightarrow> {Suspected_changed, Start_join, Reject_join, Change_commit_ready,
                         Leader_proposed_change} \<subseteq> set ?ps
                       \<and> Leader_committed_changes \<notin> set ?ps"
      by (auto simp: remove_predicate_def register_predicates_set)
    show ?thesis
      by (rule exI[of _ ?vm']) (use te keep first in auto)
  qed
  from maps epoch show ?thesis by blast
qed

theorem provisioning_exception_rolls_back_and_stalls_witness:
  "next_unassigned_rank stall_next_view = 2
   \<and> make_types rank_membership (Some provisioned_view) 2 [0..<1]
       (stall_next_view\<lparr>subgroup_shard_views := [], subgroup_ids_by_type_id := Map.empty\<rparr>,
        Map.empty, 0)
       = Inr (1, reached_view, reached_settings)
   \<and> next_unassigned_rank reached_view = 1
   \<and> length (subgroup_shard_views reached_view) = 1
   \<and> subgroup_ids_by_type_id reached_view 0 = Some [0]
   \<and> reached_settings 0 \<noteq> None
   \<and> (\<exists>v'. make_subgroup_maps rank_membership (Some provisioned_view) stall_next_view Map.empty
               = Inr (0, v', Map.empty)
         \<and> \<not> is_adequately_provisioned v' \<and> next_unassigned_rank v' = 2
         \<and> subgroup_shard_views v' = [] \<and> subgroup_ids_by_type_id v' = Map.empty
         \<and> (\<exists>vm'. terminate_epoch rank_membership example_ntoa stall_example
                     = Inr (vm', Map.empty, Waiting_for_joins)
               \<and> curr_view vm' = provisioned_view
               \<and> next_view vm' = Some v'
               \<and> set (predicates vm')
                   = {Suspected_changed, Start_join, Reject_join, Change_commit_ready,
                      Leader_proposed_change, Leader_committed_beyond 1}))"
proof -
  let ?v' = "reached_view\<lparr>is_adequately_provisioned := False,
                           next_unassigned_rank := next_unassigned_rank stall_next_view,
                           subgroup_shard_views := [],
                           subgroup_ids_by_type_id := Map.empty\<rparr>"
  have nur: "next_unassigned_rank stall_next_view = 2" by (simp add: stall_next_view_def)
  have ty: "1 < length (subgroup_type_order stall_next_view)"
    by (simp add: stall_next_view_def)
  have thr: "rank_membership (subgroup_type_order stall_next_view ! 1) (Some provisioned_view)
               reached_view = None"
    by (simp add: stall_next_view_def reached_view_def rank_membership_def)
  have vm: "curr_view stall_example = provisioned_view" "gmsSST stall_example = leave_table"
    "next_view stall_example = None" "predicates stall_example = []"
    by (simp_all add: stall_example_def example_vm_def)
  have ld: "num_committed (leave_table ! nat (rank_of_leader provisioned_view)) = 1"
    by (simp add: leave_table_def provisioned_view_def example_view_def example_row_def
        rank_of_leader_def)
  have rv: "next_unassigned_rank reached_view = 1"
    "length (subgroup_shard_views reached_view) = 1"
    "subgroup_ids_by_type_id reached_view 0 = Some [0]" "reached_settings 0 \<noteq> None"
    by (simp_all add: reached_view_def reached_settings_def)
  note t = provisioning_exception_rolls_back_and_stalls[where ty = 1 and v = stall_next_view
      and membership_function = rank_membership and prev = "Some provisioned_view"
      and s = Map.empty and vm = stall_example and inet_ntoa = example_ntoa
      and v' = ?v', OF ty reached_view_made thr refl]
  from t have m: "make_subgroup_maps rank_membership (Some provisioned_view) stall_next_view
                    Map.empty = Inr (0, ?v', Map.empty)" by blast
  from t vm stall_next_view_made obtain vm' where
    e: "terminate_epoch rank_membership example_ntoa stall_example
          = Inr (vm', Map.empty, Waiting_for_joins)"
    "curr_view vm' = provisioned_view" "next_view vm' = Some ?v'"
    by auto
  have ps: "set (predicates vm')
             = {Suspected_changed, Start_join, Reject_join, Change_commit_ready,
                Leader_proposed_change, Leader_committed_beyond 1}"
    using e(1) unfolding terminate_epoch_def Let_def vm stall_next_view_made
    by (auto simp: m remove_predicate_def register_predicates_set ld)
  have f: "\<not> is_adequately_provisioned ?v'" "next_unassigned_rank ?v' = 2"
    "subgroup_shard_views ?v' = []" "subgroup_ids_by_type_id ?v' = Map.empty"
    by (simp_all add: nur)
  show ?thesis
    using nur reached_view_made[unfolded nur] rv m f e ps by blast
qed


subsection \<open>The settings made by the leader and derived by a follower\<close>




subsection \<open>The response codes of the leader\<close>

text \<open>
  Claim C9, as amended. \<open>receive_configuration\<close> writes the id of the node and reads
  the response of the leader, and handles four response codes. On \<open>ID_IN_USE\<close> it
  throws. On \<open>LEADER_REDIRECT\<close> it reads a length, an address and a port and does the
  same exchange again on a connection to that address and port. On \<open>OK\<close> it writes its
  four ports and reads rounds of a view, the parameters and the commit flag; it returns
  at the first round whose flag is set, with the view and the parameters of that round
  and the result \<open>False\<close>, and it throws if the stream ends after rounds whose flag is
  clear. On \<open>TOTAL_RESTART\<close> it first sends the view and the ragged trims it has on
  disk, then writes the four ports and reads rounds that carry ragged trims between the
  parameters and the flag; it returns at the first round whose flag is set, with the
  ragged trims of that round and the result \<open>True\<close>. The counterexample below shows
  a run with the fourth code, which the claim does not count.
\<close>

theorem receive_configuration_by_response_code:
  assumes w: "0 < writable c"
    and i: "incoming c = Response code leader # rest"
    and result: "result = receive_configuration cfg my_id c"
  shows "(code = ID_IN_USE \<longrightarrow> result = Some (Inl ID_already_in_use))
       \<and> (code = LEADER_REDIRECT
            \<and> rest = Size n # Address leader_ip # Port leader_gms_port # rest'
          \<longrightarrow> result = receive_configuration cfg my_id (connect cfg leader_ip leader_gms_port))
       \<and> (code = OK \<and> 5 \<le> writable c \<and> (\<forall>r \<in> set aborted. \<not> round_confirmed r)
          \<longrightarrow> (rest = concat (map (round_messages False) (aborted @ [committed])) @ rest'
                 \<and> round_confirmed committed
               \<longrightarrow> result
                     = Some (Inr (False,
                          (round_view committed)\<lparr>subgroup_type_order := local_type_order cfg\<rparr>,
                          round_params committed, [],
                          c\<lparr>incoming := rest',
                            outgoing := outgoing c @ Node_id my_id # port_messages cfg,
                            writable := writable c - 5\<rparr>)))
              \<and> (rest = concat (map (round_messages False) aborted)
                  \<longrightarrow> result = Some (Inl Leader_crashed_before_view)))
       \<and> (code = TOTAL_RESTART \<and> saved_view cfg = Some v
            \<and> (\<forall>e \<in> set (saved_ragged_trim cfg). snd e \<noteq> [])
            \<and> 8 + 2 * length (saved_ragged_trim cfg) \<le> writable c
            \<and> (\<forall>r \<in> set aborted. \<not> round_confirmed r)
          \<longrightarrow> (rest = concat (map (round_messages True) (aborted @ [committed])) @ rest'
                 \<and> round_confirmed committed
               \<longrightarrow> result
                     = Some (Inr (True,
                          (round_view committed)\<lparr>subgroup_type_order := local_type_order cfg\<rparr>,
                          round_params committed, received_trims (round_trims committed),
                          c\<lparr>incoming := rest',
                            outgoing := outgoing c @ Node_id my_id
                                        # restart_messages cfg v @ port_messages cfg,
                            writable := writable c
                                        - (8 + 2 * length (saved_ragged_trim cfg))\<rparr>)))
              \<and> (rest = concat (map (round_messages True) aborted)
                  \<longrightarrow> result = Some (Inl Leader_crashed_before_view)))"
proof -
  have a: "result = Some (Inl ID_already_in_use)" if "code = ID_IN_USE"
    using exchange_ids_in_use[OF w i[unfolded that], of "connect cfg" my_id]
    by (simp add: result receive_configuration_def)
  have b: "result = receive_configuration cfg my_id (connect cfg leader_ip leader_gms_port)"
    if "code = LEADER_REDIRECT" "rest = Size n # Address leader_ip # Port leader_gms_port # rest'"
    using exchange_ids_redirect[OF w i[unfolded that], of "connect cfg" my_id]
    by (simp only: result receive_configuration_def)
  have c1: "result = Some (Inr (False,
                          (round_view committed)\<lparr>subgroup_type_order := local_type_order cfg\<rparr>,
                          round_params committed, [],
                          c\<lparr>incoming := rest',
                            outgoing := outgoing c @ Node_id my_id # port_messages cfg,
                            writable := writable c - 5\<rparr>))"
    if "code = OK" "5 \<le> writable c" "\<forall>r \<in> set aborted. \<not> round_confirmed r"
      "rest = concat (map (round_messages False) (aborted @ [committed])) @ rest'"
      "round_confirmed committed"
  proof -
    let ?c = "c\<lparr>incoming := rest, outgoing := outgoing c @ Node_id my_id # port_messages cfg,
                 writable := writable c - 5\<rparr>"
    have "incoming ?c = concat (map (round_messages False) (aborted @ [committed])) @ rest'"
      using that(4) by simp
    from await_view_ok[OF this that(3) that(5), of "[]"]
    have "await_view False ?c []
            = Inr (round_view committed, round_params committed, [], ?c\<lparr>incoming := rest'\<rparr>)"
      by simp
    then show ?thesis
      unfolding result receive_configuration_ok[OF that(2) i[unfolded that(1)]] by simp
  qed
  have c2: "result = Some (Inl Leader_crashed_before_view)"
    if "code = OK" "5 \<le> writable c" "\<forall>r \<in> set aborted. \<not> round_confirmed r"
      "rest = concat (map (round_messages False) aborted)"
  proof -
    let ?c = "c\<lparr>incoming := rest, outgoing := outgoing c @ Node_id my_id # port_messages cfg,
                 writable := writable c - 5\<rparr>"
    have "incoming ?c = concat (map (round_messages False) aborted)" using that(4) by simp
    from await_view_unconfirmed[OF this that(3), of "[]"]
    show ?thesis
      unfolding result receive_configuration_ok[OF that(2) i[unfolded that(1)]] by simp
  qed
  have d1: "result = Some (Inr (True,
                          (round_view committed)\<lparr>subgroup_type_order := local_type_order cfg\<rparr>,
                          round_params committed, received_trims (round_trims committed),
                          c\<lparr>incoming := rest',
                            outgoing := outgoing c @ Node_id my_id
                                        # restart_messages cfg v @ port_messages cfg,
                            writable := writable c
                                        - (8 + 2 * length (saved_ragged_trim cfg))\<rparr>))"
    if "code = TOTAL_RESTART" "saved_view cfg = Some v"
      "\<forall>e \<in> set (saved_ragged_trim cfg). snd e \<noteq> []"
      "8 + 2 * length (saved_ragged_trim cfg) \<le> writable c"
      "\<forall>r \<in> set aborted. \<not> round_confirmed r"
      "rest = concat (map (round_messages True) (aborted @ [committed])) @ rest'"
      "round_confirmed committed"
  proof -
    let ?c = "c\<lparr>incoming := rest,
                 outgoing := outgoing c @ Node_id my_id
                             # restart_messages cfg v @ port_messages cfg,
                 writable := writable c - (8 + 2 * length (saved_ragged_trim cfg))\<rparr>"
    have "incoming ?c = concat (map (round_messages True) (aborted @ [committed])) @ rest'"
      using that(6) by simp
    from await_view_ok[OF this that(5) that(7), of "saved_ragged_trim cfg"]
    have "await_view True ?c (saved_ragged_trim cfg)
            = Inr (round_view committed, round_params committed,
                   received_trims (round_trims committed), ?c\<lparr>incoming := rest'\<rparr>)"
      by simp
    then show ?thesis
      unfolding result receive_configuration_restart[OF that(4) i[unfolded that(1)] that(2,3)]
      by simp
  qed
  have d2: "result = Some (Inl Leader_crashed_before_view)"
    if "code = TOTAL_RESTART" "saved_view cfg = Some v"
      "\<forall>e \<in> set (saved_ragged_trim cfg). snd e \<noteq> []"
      "8 + 2 * length (saved_ragged_trim cfg) \<le> writable c"
      "\<forall>r \<in> set aborted. \<not> round_confirmed r"
      "rest = concat (map (round_messages True) aborted)"
  proof -
    let ?c = "c\<lparr>incoming := rest,
                 outgoing := outgoing c @ Node_id my_id
                             # restart_messages cfg v @ port_messages cfg,
                 writable := writable c - (8 + 2 * length (saved_ragged_trim cfg))\<rparr>"
    have "incoming ?c = concat (map (round_messages True) aborted)" using that(6) by simp
    from await_view_unconfirmed[OF this that(5), of "saved_ragged_trim cfg"]
    show ?thesis
      unfolding result receive_configuration_restart[OF that(4) i[unfolded that(1)] that(2,3)]
      by simp
  qed
  from a b c1 c2 d1 d2 show ?thesis by blast
qed

lemma leader_socket_fields:
  "writable (leader_socket code) = 16" "outgoing (leader_socket code) = []"
  "incoming (leader_socket code)
     = Response code 10
       # concat (map (round_messages (code = TOTAL_RESTART))
           ([example_round (typed_view 1) False] @ [example_round (received_view 1) True])) @ []"
  by (simp_all add: leader_socket_def)

lemma joiner_config_fields:
  "saved_view joiner_config = Some (typed_view 1)"
  "saved_ragged_trim joiner_config = [(0, [(0, example_trim)])]"
  "local_type_order joiner_config = [7, 8]"
  "connect joiner_config ip p = leader_socket OK"
  "port_messages joiner_config = [Port 23580, Port 28366, Port 37683, Port 31675]"
  "restart_messages joiner_config (typed_view 1)
     = [Size 120, Serialized_view (typed_view 1), Size 1, Size 40, Serialized_trim example_trim]"
  by (simp_all add: joiner_config_def port_messages_def restart_messages_def)

lemma example_round_fields:
  "round_confirmed (example_round v b) = b" "round_view (example_round v b) = v"
  "round_params (example_round v b) = ''params''"
  "received_trims (round_trims (example_round v b)) = [(0, [(0, example_trim)])]"
  by (simp_all add: example_round_def received_trims_def example_trim_def)

theorem receive_configuration_by_response_code_witness:
  "receive_configuration joiner_config 5 redirecting_socket
     = Some (Inr (False, (received_view 1)\<lparr>subgroup_type_order := [7, 8]\<rparr>, ''params'', [],
                  \<lparr>incoming = [],
                    outgoing = [Node_id 5, Port 23580, Port 28366, Port 37683, Port 31675],
                    writable = 11\<rparr>))
   \<and> receive_configuration joiner_config 5 (leader_socket ID_IN_USE)
       = Some (Inl ID_already_in_use)"
proof -
  have rw: "0 < writable redirecting_socket"
    and ri: "incoming redirecting_socket
               = Response LEADER_REDIRECT 11 # [Size 8, Address ''10.0.0.2'', Port 23580]"
    by (simp_all add: redirecting_socket_def)
  from receive_configuration_by_response_code[OF rw ri refl, of joiner_config 5 8
      "''10.0.0.2''" 23580 "[]"]
  have redirected: "receive_configuration joiner_config 5 redirecting_socket
                      = receive_configuration joiner_config 5 (leader_socket OK)"
    by (simp add: joiner_config_fields)
  have lw: "0 < writable (leader_socket code)" for code by (simp add: leader_socket_fields)
  have ab: "\<forall>r \<in> set [example_round (typed_view 1) False]. \<not> round_confirmed r"
    by (simp add: example_round_fields)
  from receive_configuration_by_response_code[OF lw leader_socket_fields(3) refl,
      where code = OK and cfg = joiner_config and my_id = 5
        and aborted = "[example_round (typed_view 1) False]"
        and committed = "example_round (received_view 1) True" and rest' = "[]"] ab
  have ok: "receive_configuration joiner_config 5 (leader_socket OK)
              = Some (Inr (False, (received_view 1)\<lparr>subgroup_type_order := [7, 8]\<rparr>,
                           ''params'', [],
                           (leader_socket OK)\<lparr>incoming := [],
                             outgoing := [Node_id 5, Port 23580, Port 28366, Port 37683,
                                          Port 31675],
                             writable := 11\<rparr>))"
    by (simp add: leader_socket_fields joiner_config_fields example_round_fields)
  have s: "(leader_socket OK)\<lparr>incoming := [],
                             outgoing := [Node_id 5, Port 23580, Port 28366, Port 37683,
                                          Port 31675],
                             writable := 11\<rparr>
             = \<lparr>incoming = [],
                 outgoing = [Node_id 5, Port 23580, Port 28366, Port 37683, Port 31675],
                 writable = 11\<rparr>"
    by (simp add: leader_socket_def)
  from receive_configuration_by_response_code[OF lw leader_socket_fields(3) refl,
      where code = ID_IN_USE and cfg = joiner_config and my_id = 5]
  have in_use: "receive_configuration joiner_config 5 (leader_socket ID_IN_USE)
                  = Some (Inl ID_already_in_use)"
    by simp
  from redirected ok s in_use show ?thesis by simp
qed

theorem total_restart_is_a_fourth_response_counterexample:
  "TOTAL_RESTART \<noteq> OK \<and> TOTAL_RESTART \<noteq> ID_IN_USE \<and> TOTAL_RESTART \<noteq> LEADER_REDIRECT
   \<and> receive_configuration joiner_config 5 (leader_socket TOTAL_RESTART)
       = Some (Inr (True, (received_view 1)\<lparr>subgroup_type_order := [7, 8]\<rparr>, ''params'',
                    [(0, [(0, example_trim)])],
                    \<lparr>incoming = [],
                      outgoing = [Node_id 5, Size 120, Serialized_view (typed_view 1), Size 1,
                                  Size 40, Serialized_trim example_trim,
                                  Port 23580, Port 28366, Port 37683, Port 31675],
                      writable = 6\<rparr>))"
proof -
  let ?c = "(leader_socket TOTAL_RESTART)\<lparr>incoming :=
                concat (map (round_messages (TOTAL_RESTART = TOTAL_RESTART))
                  ([example_round (typed_view 1) False] @ [example_round (received_view 1) True]))
                @ [],
              outgoing := outgoing (leader_socket TOTAL_RESTART) @ Node_id 5
                          # restart_messages joiner_config (typed_view 1)
                            @ port_messages joiner_config,
              writable := writable (leader_socket TOTAL_RESTART)
                          - (8 + 2 * length (saved_ragged_trim joiner_config))\<rparr>"
  have w: "8 + 2 * length (saved_ragged_trim joiner_config) \<le> writable (leader_socket TOTAL_RESTART)"
    by (simp add: leader_socket_fields joiner_config_fields)
  have ne: "\<forall>e \<in> set (saved_ragged_trim joiner_config). snd e \<noteq> []"
    by (simp add: joiner_config_fields)
  note rc = receive_configuration_restart[OF w leader_socket_fields(3) joiner_config_fields(1) ne,
      of 5]
  have i: "incoming ?c = concat (map (round_messages True)
             ([example_round (typed_view 1) False] @ [example_round (received_view 1) True])) @ []"
    by simp
  have ab: "\<forall>r \<in> set [example_round (typed_view 1) False]. \<not> round_confirmed r"
    by (simp add: example_round_fields)
  have cm: "round_confirmed (example_round (received_view 1) True)"
    by (simp add: example_round_fields)
  from await_view_ok[OF i ab cm, of "saved_ragged_trim joiner_config"]
  have av: "await_view True ?c (saved_ragged_trim joiner_config)
              = Inr (received_view 1, ''params'', [(0, [(0, example_trim)])],
                     \<lparr>incoming = [],
                       outgoing = [Node_id 5, Size 120, Serialized_view (typed_view 1), Size 1,
                                   Size 40, Serialized_trim example_trim,
                                   Port 23580, Port 28366, Port 37683, Port 31675],
                       writable = 6\<rparr>)"
    by (simp add: example_round_fields joiner_config_fields leader_socket_def)
  show ?thesis unfolding rc av by (simp add: joiner_config_fields)
qed

end
